theory Spec2Isabelle
  imports Complex_Main
begin

section \<open>Peak localization: Python and numpy basics\<close>

text \<open>
  The development embeds \<^verbatim>\<open>spikeinterface/sortingcomponents/peak_localization.py\<close>.
  Exceptions of the source are values: every function that can raise returns
  \<open>py_error + 'a\<close>, with \<open>Inl\<close> the exception.
\<close>

datatype py_error = AssertionError | IndexError | ValueError | UnboundLocalError | TypeError

definition bindE :: "py_error + 'a \<Rightarrow> ('a \<Rightarrow> py_error + 'b) \<Rightarrow> py_error + 'b" where
  "bindE m f = (case m of Inl e \<Rightarrow> Inl e | Inr v \<Rightarrow> f v)"

text \<open>Evaluating \<open>f\<close> on every element in order, stopping at the first exception.\<close>

fun mapE :: "('a \<Rightarrow> py_error + 'b) \<Rightarrow> 'a list \<Rightarrow> py_error + 'b list" where
  "mapE f [] = Inr []"
| "mapE f (a # as) = bindE (f a) (\<lambda>b. bindE (mapE f as) (\<lambda>bs. Inr (b # bs)))"

text \<open>
  Integer indexing \<^verbatim>\<open>xs[i]\<close> of Python and numpy: a negative index counts from the
  end, an index outside \<open>[-n, n)\<close> raises IndexError.
\<close>

definition norm_index :: "nat \<Rightarrow> int \<Rightarrow> py_error + nat" where
  "norm_index n i =
     (if 0 \<le> i \<and> i < int n then Inr (nat i)
      else if - int n \<le> i \<and> i < 0 then Inr (nat (int n + i))
      else Inl IndexError)"

definition getitem :: "'a list \<Rightarrow> int \<Rightarrow> py_error + 'a" where
  "getitem xs i = bindE (norm_index (length xs) i) (\<lambda>j. Inr (xs ! j))"

text \<open>
  Slicing \<^verbatim>\<open>xs[a:b]\<close>: negative bounds count from the end, all bounds are clipped to
  \<open>[0, n]\<close>, and no bound ever raises.
\<close>

definition slice_bound :: "nat \<Rightarrow> int \<Rightarrow> nat" where
  "slice_bound n a = (if a < 0 then nat (max (a + int n) 0) else min (nat a) n)"

definition slice :: "'a list \<Rightarrow> int \<Rightarrow> int \<Rightarrow> 'a list" where
  "slice xs a b =
     (let start = slice_bound (length xs) a; stop = slice_bound (length xs) b
      in take (stop - start) (drop start xs))"

text \<open>\<^verbatim>\<open>np.nonzero\<close> / \<^verbatim>\<open>np.flatnonzero\<close> of a boolean vector: the indices that hold True.\<close>

definition nonzero :: "bool list \<Rightarrow> nat list" where
  "nonzero bs = filter (\<lambda>i. bs ! i) [0..<length bs]"

text \<open>\<^verbatim>\<open>np.unique\<close>: the distinct values, sorted.\<close>

definition unique :: "int list \<Rightarrow> int list" where
  "unique xs = sort (remdups xs)"

subsection \<open>Numbers\<close>

text \<open>
  Samples and contact coordinates are finite numbers, modelled as reals: the
  rounding and the overflow of floating point and the sign of zero are
  abstracted. What numpy's float64 arithmetic
  does at a division by zero is kept: \<open>0 / 0\<close> is NaN and \<open>a / 0\<close> an infinity of the
  sign of \<open>a\<close> (a warning, never an exception).
\<close>

datatype fnum = Fin real | PInf | NInf | NaN

fun fneg :: "fnum \<Rightarrow> fnum" where
  "fneg (Fin a) = Fin (- a)"
| "fneg PInf = NInf"
| "fneg NInf = PInf"
| "fneg NaN = NaN"

fun fadd :: "fnum \<Rightarrow> fnum \<Rightarrow> fnum" where
  "fadd (Fin a) (Fin b) = Fin (a + b)"
| "fadd NaN _ = NaN"
| "fadd _ NaN = NaN"
| "fadd PInf NInf = NaN"
| "fadd NInf PInf = NaN"
| "fadd PInf _ = PInf"
| "fadd _ PInf = PInf"
| "fadd NInf _ = NInf"
| "fadd _ NInf = NInf"

fun fmul :: "fnum \<Rightarrow> fnum \<Rightarrow> fnum" where
  "fmul (Fin a) (Fin b) = Fin (a * b)"
| "fmul NaN _ = NaN"
| "fmul _ NaN = NaN"
| "fmul (Fin a) PInf = (if a = 0 then NaN else if 0 < a then PInf else NInf)"
| "fmul (Fin a) NInf = (if a = 0 then NaN else if 0 < a then NInf else PInf)"
| "fmul PInf (Fin b) = (if b = 0 then NaN else if 0 < b then PInf else NInf)"
| "fmul NInf (Fin b) = (if b = 0 then NaN else if 0 < b then NInf else PInf)"
| "fmul PInf PInf = PInf"
| "fmul NInf NInf = PInf"
| "fmul PInf NInf = NInf"
| "fmul NInf PInf = NInf"

fun fdiv :: "fnum \<Rightarrow> fnum \<Rightarrow> fnum" where
  "fdiv (Fin a) (Fin b) =
     (if b = 0 then (if a = 0 then NaN else if 0 < a then PInf else NInf)
      else Fin (a / b))"
| "fdiv NaN _ = NaN"
| "fdiv _ NaN = NaN"
| "fdiv (Fin a) PInf = Fin 0"
| "fdiv (Fin a) NInf = Fin 0"
| "fdiv PInf (Fin b) = (if 0 \<le> b then PInf else NInf)"
| "fdiv NInf (Fin b) = (if 0 \<le> b then NInf else PInf)"
| "fdiv PInf PInf = NaN"
| "fdiv PInf NInf = NaN"
| "fdiv NInf PInf = NaN"
| "fdiv NInf NInf = NaN"

text \<open>\<^verbatim>\<open>np.sum\<close> of a vector.\<close>

definition fsum :: "fnum list \<Rightarrow> fnum" where
  "fsum ws = foldr fadd ws (Fin 0)"

text \<open>
  The element type of an array. The samples of a recording are often 16-bit
  integers, and a numpy reduction keeps the element type: in a signed integer
  type of \<open>w\<close> bits a difference outside \<open>[-2^(w-1), 2^(w-1))\<close> wraps around.
\<close>

datatype dtype = Floating | Signed nat | Unsigned nat

definition wrap_signed :: "nat \<Rightarrow> real \<Rightarrow> real" where
  "wrap_signed w v = real_of_int ((\<lfloor>v\<rfloor> + 2 ^ (w - 1)) mod 2 ^ w - 2 ^ (w - 1))"


subsection \<open>Arrays and the pipeline step\<close>

text \<open>
  A 2-d array is its rows together with the width of a row, which numpy
  keeps also when there is no row, and its element type. A 3-d array (peaks,
  samples, channels) keeps the two inner extents. Slices, index selections
  and updates of the entries keep the element type.
\<close>

record array2d =
  ncols :: nat
  rows :: "real list list"
  dtype :: dtype

record array3d =
  nsamples :: nat
  nchans :: nat
  items :: "real list list list"
  dtype3 :: dtype

definition rect2 :: "array2d \<Rightarrow> bool" where
  "rect2 A = list_all (\<lambda>r. length r = ncols A) (rows A)"

definition rect3 :: "array3d \<Rightarrow> bool" where
  "rect3 W = list_all (\<lambda>w. length w = nsamples W \<and> list_all (\<lambda>r. length r = nchans W) w) (items W)"

text \<open>A detected peak (one element of the structured peaks array).\<close>

record peak =
  sample_ind :: int
  channel_ind :: int
  segment_ind :: int

text \<open>
  The attributes that \<^verbatim>\<open>PeakPipelineStep.__init__\<close> (not part of this file of the
  source) leaves on every step and that the strategies read.
\<close>

record pipeline_step =
  contact_locations :: array2d
  neighbours_mask :: "bool list list"
  nbefore :: int
  nafter :: int

text \<open>A location record of dtype \<open>(x, y)\<close>, and \<^verbatim>\<open>np.zeros\<close> of that dtype.\<close>

type_synonym xy_record = "fnum \<times> fnum"

definition zeros_xy :: "nat \<Rightarrow> xy_record list" where
  "zeros_xy n = replicate n (Fin 0, Fin 0)"

section \<open>LocalizePeakChannel\<close>

text \<open>
  One turn of the loop of \<^verbatim>\<open>LocalizePeakChannel.compute_buffer\<close>: the row of the
  contact locations at \<open>main_chan\<close>, its entries 0 and 1.
\<close>

definition peak_channel_body :: "'a pipeline_step_scheme \<Rightarrow> int \<Rightarrow> py_error + xy_record" where
  "peak_channel_body step main_chan =
     bindE (getitem (rows (contact_locations step)) main_chan) (\<lambda>locations.
     bindE (getitem locations 0) (\<lambda>lx.
     bindE (getitem locations 1) (\<lambda>ly. Inr (Fin lx, Fin ly))))"

text \<open>
  The loop \<^verbatim>\<open>for i, x in enumerate(xs): out[i] = body(x)\<close>, which two of the
  strategies run over the peaks; an exception of the body leaves the loop.
\<close>

fun enumerate_loop ::
  "('a \<Rightarrow> py_error + 'b) \<Rightarrow> nat \<Rightarrow> 'a list \<Rightarrow> 'b list \<Rightarrow> py_error + 'b list" where
  "enumerate_loop body index [] out = Inr out"
| "enumerate_loop body index (a # as) out =
     bindE (body a) (\<lambda>b. enumerate_loop body (Suc index) as (out[index := b]))"

definition peak_channel_compute_buffer ::
  "'a pipeline_step_scheme \<Rightarrow> array2d \<Rightarrow> peak list \<Rightarrow> py_error + xy_record list" where
  "peak_channel_compute_buffer step traces peaks =
     enumerate_loop (peak_channel_body step) 0 (map channel_ind peaks) (zeros_xy (length peaks))"

section \<open>LocalizeCenterOfMass\<close>

record com_step = pipeline_step +
  feature :: string

text \<open>
  Indexing an axis with an array of non-negative indices (the results of
  \<^verbatim>\<open>np.nonzero\<close>): IndexError when one of them is outside the axis, a copy of the
  selected entries otherwise.
\<close>

definition in_axis :: "nat \<Rightarrow> nat list \<Rightarrow> bool" where
  "in_axis n idx = list_all (\<lambda>i. i < n) idx"

definition take_rows :: "array2d \<Rightarrow> nat list \<Rightarrow> py_error + array2d" where
  "take_rows A idx =
     (if in_axis (length (rows A)) idx
      then Inr (A\<lparr>rows := map (\<lambda>i. rows A ! i) idx\<rparr>) else Inl IndexError)"

definition take_waveforms :: "array3d \<Rightarrow> nat list \<Rightarrow> py_error + array3d" where
  "take_waveforms W idx =
     (if in_axis (length (items W)) idx
      then Inr (W\<lparr>items := map (\<lambda>i. items W ! i) idx\<rparr>) else Inl IndexError)"

text \<open>\<^verbatim>\<open>W[:, :, chan_inds]\<close>\<close>

definition take_chans :: "array3d \<Rightarrow> nat list \<Rightarrow> py_error + array3d" where
  "take_chans W chan_inds =
     (if in_axis (nchans W) chan_inds
      then Inr (W\<lparr>nchans := length chan_inds,
                  items := map (map (\<lambda>r. map (\<lambda>c. r ! c) chan_inds)) (items W)\<rparr>)
      else Inl IndexError)"

text \<open>Column \<open>j\<close> of a snippet (samples by channels): the samples of channel \<open>j\<close>.\<close>

definition column :: "real list list \<Rightarrow> nat \<Rightarrow> real list" where
  "column w j = map (\<lambda>r. r ! j) w"

text \<open>The largest and the smallest entry of a vector that has one.\<close>

fun amax :: "real list \<Rightarrow> real" where
  "amax [a] = a"
| "amax (a # b # bs) = max a (amax (b # bs))"

fun amin :: "real list \<Rightarrow> real" where
  "amin [a] = a"
| "amin (a # b # bs) = min a (amin (b # bs))"

text \<open>
  The four reductions of a channel's samples to a weight. \<open>ptp\<close> is only
  used on a window that has a sample (the callers raise ValueError before, as
  numpy's maximum does on an empty axis) and gives its result in the element
  type of the array, so that it wraps around in a signed integer type; the
  mean and the norm are computed in floating point, and the mean of no sample
  is \<open>0 / 0\<close>.
\<close>

definition ptp :: "dtype \<Rightarrow> real list \<Rightarrow> real" where
  "ptp dt xs =
     (case dt of
        Signed w \<Rightarrow> wrap_signed w (amax xs - amin xs)
      | _ \<Rightarrow> amax xs - amin xs)"

definition mean :: "real list \<Rightarrow> fnum" where
  "mean xs = fdiv (Fin (sum_list xs)) (Fin (real (length xs)))"

definition norm2 :: "real list \<Rightarrow> real" where
  "norm2 xs = sqrt (sum_list (map (\<lambda>a. a * a) xs))"

text \<open>\<^verbatim>\<open>W.ptp(axis=1)\<close>, \<^verbatim>\<open>W.mean(axis=1)\<close>, \<^verbatim>\<open>np.linalg.norm(W, axis=1)\<close>\<close>

definition ptp_axis1 :: "array3d \<Rightarrow> py_error + fnum list list" where
  "ptp_axis1 W =
     (if nsamples W = 0 then Inl ValueError
      else Inr (map (\<lambda>w. map (\<lambda>j. Fin (ptp (dtype3 W) (column w j))) [0..<nchans W]) (items W)))"

definition mean_axis1 :: "array3d \<Rightarrow> fnum list list" where
  "mean_axis1 W = map (\<lambda>w. map (\<lambda>j. mean (column w j)) [0..<nchans W]) (items W)"

definition norm_axis1 :: "array3d \<Rightarrow> fnum list list" where
  "norm_axis1 W = map (\<lambda>w. map (\<lambda>j. Fin (norm2 (column w j))) [0..<nchans W]) (items W)"

text \<open>\<^verbatim>\<open>W[:, nbefore, chan_inds]\<close>\<close>

definition sample_at :: "array3d \<Rightarrow> int \<Rightarrow> nat list \<Rightarrow> py_error + fnum list list" where
  "sample_at W t chan_inds =
     bindE (norm_index (nsamples W) t) (\<lambda>k.
       if in_axis (nchans W) chan_inds
       then Inr (map (\<lambda>w. map (\<lambda>c. Fin (w ! k ! c)) chan_inds) (items W))
       else Inl IndexError)"

text \<open>
  The \<^verbatim>\<open>if\<close>/\<^verbatim>\<open>elif\<close> chain on \<^verbatim>\<open>self.feature\<close>. It has no \<^verbatim>\<open>else\<close>: with any other
  feature \<^verbatim>\<open>wf_data\<close> stays unbound and the line that reads it next raises.
\<close>

definition com_wf_data ::
  "string \<Rightarrow> int \<Rightarrow> array3d \<Rightarrow> nat list \<Rightarrow> nat list \<Rightarrow> py_error + fnum list list" where
  "com_wf_data feat nbef waveforms idx chan_inds =
     (if feat = ''ptp'' then
        bindE (take_waveforms waveforms idx) (\<lambda>W. bindE (take_chans W chan_inds) ptp_axis1)
      else if feat = ''mean'' then
        bindE (take_waveforms waveforms idx) (\<lambda>W.
          bindE (take_chans W chan_inds) (\<lambda>V. Inr (mean_axis1 V)))
      else if feat = ''energy'' then
        bindE (take_waveforms waveforms idx) (\<lambda>W.
          bindE (take_chans W chan_inds) (\<lambda>V. Inr (norm_axis1 V)))
      else if feat = ''v_origin'' then
        bindE (take_waveforms waveforms idx) (\<lambda>W. sample_at W nbef chan_inds)
      else Inl UnboundLocalError)"

text \<open>
  \<^verbatim>\<open>np.dot(wf_data, local_contact_locations) / np.sum(wf_data, axis=1)[:, np.newaxis]\<close>:
  one row per peak of the group, one entry per coordinate; the division has
  no guard. The product with the float positions is a float product and
  \<^verbatim>\<open>np.sum\<close> adds small integers in 64 bits, so that only \<^verbatim>\<open>ptp\<close> depends on the
  element type of the snippets.
\<close>

definition dot_row :: "fnum list \<Rightarrow> real list list \<Rightarrow> nat \<Rightarrow> fnum" where
  "dot_row w locs d = fsum (map2 (\<lambda>a p. fmul a (Fin (p ! d))) w locs)"

definition com_row :: "array2d \<Rightarrow> fnum list \<Rightarrow> fnum list" where
  "com_row local w = map (\<lambda>d. fdiv (dot_row w (rows local) d) (fsum w)) [0..<ncols local]"

text \<open>\<^verbatim>\<open>coms[:, d]\<close>\<close>

definition coms_column :: "nat \<Rightarrow> fnum list list \<Rightarrow> nat \<Rightarrow> py_error + fnum list" where
  "coms_column width coms d =
     (if d < width then Inr (map (\<lambda>r. r ! d) coms) else Inl IndexError)"

text \<open>\<^verbatim>\<open>peak_locations['x'][idx] = vs\<close> and \<^verbatim>\<open>peak_locations['y'][idx] = vs\<close>\<close>

definition assign_x :: "xy_record list \<Rightarrow> nat list \<Rightarrow> fnum list \<Rightarrow> xy_record list" where
  "assign_x out idx vs = fold (\<lambda>(i, v) acc. acc[i := (v, snd (acc ! i))]) (zip idx vs) out"

definition assign_y :: "xy_record list \<Rightarrow> nat list \<Rightarrow> fnum list \<Rightarrow> xy_record list" where
  "assign_y out idx vs = fold (\<lambda>(i, v) acc. acc[i := (fst (acc ! i), v)]) (zip idx vs) out"

text \<open>The body of the loop over \<^verbatim>\<open>np.unique(peaks['channel_ind'])\<close>.\<close>

definition com_group ::
  "'a com_step_scheme \<Rightarrow> array3d \<Rightarrow> peak list \<Rightarrow> int \<Rightarrow> xy_record list \<Rightarrow>
   py_error + xy_record list" where
  "com_group step waveforms peaks main_chan peak_locations =
     (let idx = nonzero (map (\<lambda>p. channel_ind p = main_chan) peaks) in
      bindE (getitem (neighbours_mask step) main_chan) (\<lambda>mask_row.
      let chan_inds = nonzero mask_row in
      bindE (take_rows (contact_locations step) chan_inds) (\<lambda>local_contact_locations.
      bindE (com_wf_data (feature step) (nbefore step) waveforms idx chan_inds) (\<lambda>wf_data.
      let coms = map (com_row local_contact_locations) wf_data in
      bindE (coms_column (ncols local_contact_locations) coms 0) (\<lambda>xs.
      let peak_locations1 = assign_x peak_locations idx xs in
      bindE (coms_column (ncols local_contact_locations) coms 1) (\<lambda>ys.
      Inr (assign_y peak_locations1 idx ys)))))))"

fun com_loop ::
  "'a com_step_scheme \<Rightarrow> array3d \<Rightarrow> peak list \<Rightarrow> int list \<Rightarrow> xy_record list \<Rightarrow>
   py_error + xy_record list" where
  "com_loop step waveforms peaks [] peak_locations = Inr peak_locations"
| "com_loop step waveforms peaks (main_chan # rest) peak_locations =
     bindE (com_group step waveforms peaks main_chan peak_locations)
       (com_loop step waveforms peaks rest)"

definition com_compute_buffer ::
  "'a com_step_scheme \<Rightarrow> array2d \<Rightarrow> peak list \<Rightarrow> array3d \<Rightarrow> py_error + xy_record list" where
  "com_compute_buffer step traces peaks waveforms =
     com_loop step waveforms peaks (unique (map channel_ind peaks)) (zeros_xy (length peaks))"


definition weighted_centroid :: "fnum list \<Rightarrow> real list \<Rightarrow> fnum" where
  "weighted_centroid ws ps = fdiv (fsum (map2 (\<lambda>w p. fmul w (Fin p)) ws ps)) (fsum ws)"

text \<open>
  The weight as the strategy computes it, in the element type \<open>dt\<close> of the
  snippets, and the location of peak \<open>i\<close> from the channels \<open>chan_inds\<close>: the
  weighted centroid of coordinates 0 and 1 of their contact positions.
\<close>

definition channel_weight :: "dtype \<Rightarrow> string \<Rightarrow> nat \<Rightarrow> real list list \<Rightarrow> nat \<Rightarrow> fnum" where
  "channel_weight dt feat k w c =
     (if feat = ''ptp'' then Fin (ptp dt (column w c))
      else if feat = ''mean'' then mean (column w c)
      else if feat = ''energy'' then Fin (norm2 (column w c))
      else Fin (w ! k ! c))"

definition com_location :: "'a com_step_scheme \<Rightarrow> array3d \<Rightarrow> nat \<Rightarrow> nat list \<Rightarrow> nat \<Rightarrow> xy_record" where
  "com_location step waveforms k chan_inds i =
     (let ws = map (channel_weight (dtype3 waveforms) (feature step) k (items waveforms ! i)) chan_inds
      in (weighted_centroid ws (map (\<lambda>c. rows (contact_locations step) ! c ! 0) chan_inds),
          weighted_centroid ws (map (\<lambda>c. rows (contact_locations step) ! c ! 1) chan_inds)))"

definition origin_offset :: "nat \<Rightarrow> int \<Rightarrow> nat" where
  "origin_offset n t = (case norm_index n t of Inl e \<Rightarrow> 0 | Inr k \<Rightarrow> k)"

section \<open>LocalizeMonopolarTriangulation\<close>

text \<open>
  A shell order lists, for one peak channel, the shells from the innermost
  (shell 0, the peak channel itself) outwards; the radial parents hold one
  shell order per channel. The entries of a shell are positions in the
  per-neighbour amplitude vector of that channel.
\<close>

type_synonym shell_order = "nat list list"

record monopolar_step = pipeline_step +
  max_distance_um :: real
  optimizer :: string
  enforce_decrease_radial_parents :: "shell_order list option"

type_synonym xyza_record = "fnum \<times> fnum \<times> fnum \<times> fnum"

definition zeros_xyza :: "nat \<Rightarrow> xyza_record list" where
  "zeros_xyza n = replicate n (Fin 0, Fin 0, Fin 0, Fin 0)"

text \<open>
  \<^verbatim>\<open>__init__\<close>: the radial parents are built (by \<^verbatim>\<open>make_radial_order_parents\<close>, a
  function of another module, here a parameter) only when \<^verbatim>\<open>enforce_decrease\<close> is
  set, and are \<^verbatim>\<open>None\<close> otherwise.
\<close>

definition monopolar_init ::
  "(array2d \<Rightarrow> bool list list \<Rightarrow> shell_order list) \<Rightarrow> pipeline_step \<Rightarrow> real \<Rightarrow> string \<Rightarrow> bool \<Rightarrow>
   monopolar_step" where
  "monopolar_init make_radial_order_parents base max_dist opt enforce_decrease =
     \<lparr>contact_locations = contact_locations base, neighbours_mask = neighbours_mask base,
      nbefore = nbefore base, nafter = nafter base,
      max_distance_um = max_dist, optimizer = opt,
      enforce_decrease_radial_parents =
        (if enforce_decrease
         then Some (make_radial_order_parents (contact_locations base) (neighbours_mask base))
         else None)\<rparr>"

text \<open>\<^verbatim>\<open>A[a:b, :]\<close> (never raises) and \<^verbatim>\<open>A[:, chan_inds]\<close>\<close>

definition slice_rows :: "array2d \<Rightarrow> int \<Rightarrow> int \<Rightarrow> array2d" where
  "slice_rows A a b = A\<lparr>rows := slice (rows A) a b\<rparr>"

definition take_columns :: "array2d \<Rightarrow> nat list \<Rightarrow> py_error + array2d" where
  "take_columns A chan_inds =
     (if in_axis (ncols A) chan_inds
      then Inr \<lparr>ncols = length chan_inds, rows = map (\<lambda>r. map (\<lambda>c. r ! c) chan_inds) (rows A),
                dtype = dtype A\<rparr>
      else Inl IndexError)"

text \<open>
  \<^verbatim>\<open>wf.ptp(axis=0)\<close>: one amplitude per column; numpy's maximum raises ValueError
  when the reduced axis is empty.
\<close>

definition ptp_axis0 :: "array2d \<Rightarrow> py_error + real list" where
  "ptp_axis0 A =
     (if rows A = [] then Inl ValueError
      else Inr (map (\<lambda>j. ptp (dtype A) (column (rows A) j)) [0..<ncols A]))"

text \<open>
  Modelled from the spec: \<^verbatim>\<open>enforce_decrease_shells_ptp\<close> is imported from
  \<^verbatim>\<open>postprocessing.unit_localization\<close>, which is not among the sources. The
  Monotonicity Enforcer of the specification: the shells are processed in
  increasing order starting at shell 1 (shell 0 is unconstrained); each channel
  of shell \<open>k\<close> whose amplitude exceeds the minimum amplitude of shell \<open>k - 1\<close> is
  clamped down to that minimum, all channels of a shell being compared against
  the same minimum; the vector is updated in place.
\<close>

definition clamp_shell :: "real \<Rightarrow> nat list \<Rightarrow> real list \<Rightarrow> real list" where
  "clamp_shell m shell amps = fold (\<lambda>c acc. if m < acc ! c then acc[c := m] else acc) shell amps"

fun enforce_shells :: "real list \<Rightarrow> nat list \<Rightarrow> shell_order \<Rightarrow> real list" where
  "enforce_shells amps prev [] = amps"
| "enforce_shells amps prev (shell # rest) =
     enforce_shells (clamp_shell (amin (map (\<lambda>c. amps ! c) prev)) shell amps) shell rest"

definition enforce_decrease_shells_ptp ::
  "real list \<Rightarrow> int \<Rightarrow> shell_order list \<Rightarrow> py_error + real list" where
  "enforce_decrease_shells_ptp wf_ptp maxchan radial_parents =
     bindE (getitem radial_parents maxchan) (\<lambda>shells.
       case shells of [] \<Rightarrow> Inr wf_ptp | shell0 # rest \<Rightarrow> Inr (enforce_shells wf_ptp shell0 rest))"

text \<open>
  The window of a peak and its amplitudes (lines 192 to 200 of the source), and
  the whole body of the loop over the peaks. \<^verbatim>\<open>solve_monopolar_triangulation\<close>
  belongs to another module and is a parameter.
\<close>

definition monopolar_window :: "'a pipeline_step_scheme \<Rightarrow> array2d \<Rightarrow> peak \<Rightarrow> array2d" where
  "monopolar_window step traces pk =
     slice_rows traces (sample_ind pk - nbefore step) (sample_ind pk + nafter step)"

definition monopolar_amplitudes ::
  "'a monopolar_step_scheme \<Rightarrow> array2d \<Rightarrow> peak \<Rightarrow> nat list \<Rightarrow> py_error + real list" where
  "monopolar_amplitudes step traces pk chan_inds =
     bindE (take_columns (monopolar_window step traces pk) chan_inds) (\<lambda>wf.
     bindE (ptp_axis0 wf) (\<lambda>wf_ptp.
       case enforce_decrease_radial_parents step of
         None \<Rightarrow> Inr wf_ptp
       | Some radial_parents \<Rightarrow>
           enforce_decrease_shells_ptp wf_ptp (channel_ind pk) radial_parents))"

definition monopolar_body ::
  "(real list \<Rightarrow> array2d \<Rightarrow> real \<Rightarrow> string \<Rightarrow> py_error + xyza_record) \<Rightarrow>
   'a monopolar_step_scheme \<Rightarrow> array2d \<Rightarrow> peak \<Rightarrow> py_error + xyza_record" where
  "monopolar_body solve step traces pk =
     bindE (getitem (neighbours_mask step) (channel_ind pk)) (\<lambda>chan_mask.
     let chan_inds = nonzero chan_mask in
     bindE (take_rows (contact_locations step) chan_inds) (\<lambda>local_contact_locations.
     bindE (monopolar_amplitudes step traces pk chan_inds) (\<lambda>wf_ptp.
       solve wf_ptp local_contact_locations (max_distance_um step) (optimizer step))))"

definition monopolar_compute_buffer ::
  "(real list \<Rightarrow> array2d \<Rightarrow> real \<Rightarrow> string \<Rightarrow> py_error + xyza_record) \<Rightarrow>
   'a monopolar_step_scheme \<Rightarrow> array2d \<Rightarrow> peak list \<Rightarrow> py_error + xyza_record list" where
  "monopolar_compute_buffer solve step traces peaks =
     enumerate_loop (monopolar_body solve step traces) 0 peaks (zeros_xyza (length peaks))"

section \<open>localize_peaks\<close>

text \<open>
  Modelled from the spec: \<^verbatim>\<open>possible_localization_methods\<close> is imported from
  \<^verbatim>\<open>postprocessing.unit_localization\<close>, which is not among the sources; the
  specification gives the three method names.
\<close>

definition possible_localization_methods :: "string list" where
  "possible_localization_methods = [''peak_channel'', ''center_of_mass'', ''monopolar_triangulation'']"

text \<open>
  The method keyword arguments that are left once the job arguments are split
  off. \<open>base\<close> below stands for what \<^verbatim>\<open>PeakPipelineStep.__init__\<close> computes from
  the recording and the arguments common to all strategies. A keyword that a
  constructor does not take is a TypeError of the call.
\<close>

record method_kwargs =
  kw_feature :: "string option"
  kw_max_distance_um :: "real option"
  kw_optimizer :: "string option"
  kw_enforce_decrease :: "bool option"

definition com_init :: "pipeline_step \<Rightarrow> string \<Rightarrow> com_step" where
  "com_init base feat =
     \<lparr>contact_locations = contact_locations base, neighbours_mask = neighbours_mask base,
      nbefore = nbefore base, nafter = nafter base, feature = feat\<rparr>"

datatype step =
    CenterOfMass com_step
  | MonopolarTriangulation monopolar_step
  | PeakChannel pipeline_step

definition default :: "'a \<Rightarrow> 'a option \<Rightarrow> 'a" where
  "default d v = (case v of None \<Rightarrow> d | Some a \<Rightarrow> a)"

text \<open>Lines 40 to 49: the assertion and the choice of the step.\<close>

definition localize_peaks_step ::
  "(array2d \<Rightarrow> bool list list \<Rightarrow> shell_order list) \<Rightarrow> pipeline_step \<Rightarrow> string \<Rightarrow> method_kwargs \<Rightarrow>
   py_error + step" where
  "localize_peaks_step make_radial_order_parents base method kwargs =
     (if method \<notin> set possible_localization_methods then Inl AssertionError
      else if method = ''center_of_mass'' then
        (if kw_max_distance_um kwargs \<noteq> None \<or> kw_optimizer kwargs \<noteq> None
            \<or> kw_enforce_decrease kwargs \<noteq> None
         then Inl TypeError
         else Inr (CenterOfMass (com_init base (default ''ptp'' (kw_feature kwargs)))))
      else if method = ''monopolar_triangulation'' then
        (if kw_feature kwargs \<noteq> None then Inl TypeError
         else Inr (MonopolarTriangulation
                (monopolar_init make_radial_order_parents base
                   (default 1000 (kw_max_distance_um kwargs))
                   (default ''minimize_with_log_penality'' (kw_optimizer kwargs))
                   (default False (kw_enforce_decrease kwargs)))))
      else if method = ''peak_channel'' then
        (if kw_feature kwargs \<noteq> None \<or> kw_max_distance_um kwargs \<noteq> None
            \<or> kw_optimizer kwargs \<noteq> None \<or> kw_enforce_decrease kwargs \<noteq> None
         then Inl TypeError
         else Inr (PeakChannel base))
      else Inl UnboundLocalError)"

text \<open>
  \<^verbatim>\<open>localize_peaks\<close>: the step is handed to \<^verbatim>\<open>run_peak_pipeline\<close>, the execution
  engine of another module (a parameter), which is the only place where
  buffers are processed.
\<close>

definition localize_peaks ::
  "(step \<Rightarrow> peak list \<Rightarrow> py_error + 'r) \<Rightarrow> (array2d \<Rightarrow> bool list list \<Rightarrow> shell_order list) \<Rightarrow>
   pipeline_step \<Rightarrow> peak list \<Rightarrow> string \<Rightarrow> method_kwargs \<Rightarrow> py_error + 'r" where
  "localize_peaks run_peak_pipeline make_radial_order_parents base peaks method kwargs =
     bindE (localize_peaks_step make_radial_order_parents base method kwargs)
       (\<lambda>step. run_peak_pipeline step peaks)"

text \<open>
  When the feature chain returns: the feature is a supported one, the channels
  are channels of the snippets, and the reduction finds what it needs.
\<close>

definition wf_data_ok :: "string \<Rightarrow> int \<Rightarrow> array3d \<Rightarrow> nat list \<Rightarrow> bool" where
  "wf_data_ok feat nbef W chan_inds \<longleftrightarrow>
     (feat = ''ptp'' \<and> in_axis (nchans W) chan_inds \<and> 0 < nsamples W
      \<or> feat = ''mean'' \<and> in_axis (nchans W) chan_inds
      \<or> feat = ''energy'' \<and> in_axis (nchans W) chan_inds
      \<or> feat = ''v_origin'' \<and> in_axis (nchans W) chan_inds
          \<and> (\<exists>k. norm_index (nsamples W) nbef = Inr k))"

text \<open>
  What one turn of the loop needs of the step and of the shape of the
  waveforms, and the record it writes for peak \<open>i\<close> of channel \<open>ch\<close>.
\<close>

definition group_ok :: "'a com_step_scheme \<Rightarrow> array3d \<Rightarrow> int \<Rightarrow> bool" where
  "group_ok step W ch \<longleftrightarrow>
     (case getitem (neighbours_mask step) ch of
        Inl e \<Rightarrow> False
      | Inr mask_row \<Rightarrow>
          in_axis (length (rows (contact_locations step))) (nonzero mask_row) \<and>
          wf_data_ok (feature step) (nbefore step) W (nonzero mask_row) \<and>
          1 < ncols (contact_locations step))"

definition com_peak_location :: "'a com_step_scheme \<Rightarrow> array3d \<Rightarrow> int \<Rightarrow> nat \<Rightarrow> xy_record" where
  "com_peak_location step W ch i =
     (case getitem (neighbours_mask step) ch of
        Inl e \<Rightarrow> (NaN, NaN)
      | Inr mask_row \<Rightarrow>
          com_location step W (origin_offset (nsamples W) (nbefore step)) (nonzero mask_row) i)"

section \<open>Example inputs\<close>

text \<open>A probe of two contacts, 20 um apart, each the neighbour of the other.\<close>

definition probe2 :: pipeline_step where
  "probe2 = \<lparr>contact_locations = \<lparr>ncols = 2, rows = [[0, 0], [20, 0]], dtype = Floating\<rparr>,
     neighbours_mask = [[True, True], [True, True]], nbefore = 1, nafter = 1\<rparr>"

definition no_traces :: array2d where
  "no_traces = \<lparr>ncols = 2, rows = [], dtype = Floating\<rparr>"

definition peak_at :: "int \<Rightarrow> int \<Rightarrow> peak" where
  "peak_at t c = \<lparr>sample_ind = t, channel_ind = c, segment_ind = 0\<rparr>"

text \<open>
  A stand-in for the solver in the examples: the sum of the amplitudes, the
  number of local contacts, the distance bound.
\<close>

definition example_solve :: "real list \<Rightarrow> array2d \<Rightarrow> real \<Rightarrow> string \<Rightarrow> py_error + xyza_record" where
  "example_solve wf_ptp locs max_dist opt =
     Inr (Fin (sum_list wf_ptp), Fin (real (length (rows locs))), Fin max_dist, Fin 0)"

definition no_parents :: "array2d \<Rightarrow> bool list list \<Rightarrow> shell_order list" where
  "no_parents locs nbrs = []"

definition traces4 :: array2d where
  "traces4 = \<lparr>ncols = 2, rows = [[0, 0], [1, 2], [3, 1], [0, 0]], dtype = Floating\<rparr>"

text \<open>What the division of a finite number by zero gives in float arithmetic.\<close>

definition division_by_zero :: "real \<Rightarrow> fnum" where
  "division_by_zero a = (if a = 0 then NaN else if 0 < a then PInf else NInf)"

definition no_kwargs :: method_kwargs where
  "no_kwargs = \<lparr>kw_feature = None, kw_max_distance_um = None, kw_optimizer = None,
     kw_enforce_decrease = None\<rparr>"

text \<open>
  A shell order for a vector of \<open>n\<close> amplitudes: there is a shell 0, no shell is
  empty, the shells hold positions of the vector and are disjoint.
\<close>

definition wf_shells :: "nat \<Rightarrow> shell_order \<Rightarrow> bool" where
  "wf_shells n shells \<longleftrightarrow>
     shells \<noteq> [] \<and> list_all (\<lambda>s. s \<noteq> [] \<and> list_all (\<lambda>c. c < n) s) shells \<and> distinct (concat shells)"

text \<open>Radial parents for the probe of two contacts: the other contact is shell 1.\<close>

definition two_shells :: "array2d \<Rightarrow> bool list list \<Rightarrow> shell_order list" where
  "two_shells locs nbrs = [[[0], [1]], [[1], [0]]]"

section \<open>Arrays as objects of a store\<close>

text \<open>
  To follow in-place updates, the arrays become objects of a store. An address
  is a position in the list of objects; a new array gets the next address, and
  an in-place update replaces the object at an address. A view (a row, a slice
  or a field of an array) has the address of the array it looks into, so it is
  read from there; indexing with an index array and reductions make new arrays.
\<close>

datatype obj =
    Floats1 "real list"
  | Floats2 array2d
  | Floats3 array3d
  | Weights "fnum list list"
  | Bools2 "bool list list"
  | Ints "nat list"
  | IntValues "int list"
  | PeakArray "peak list"
  | Parents "shell_order list"
  | RecordsXY "xy_record list"
  | RecordsXYZA "xyza_record list"

type_synonym store = "obj list"

definition new :: "obj \<Rightarrow> store \<Rightarrow> nat \<times> store" where
  "new v h = (length h, h @ [v])"

definition the_floats1 :: "obj \<Rightarrow> real list" where
  "the_floats1 v = (case v of Floats1 a \<Rightarrow> a | _ \<Rightarrow> [])"

definition the_floats2 :: "obj \<Rightarrow> array2d" where
  "the_floats2 v = (case v of Floats2 a \<Rightarrow> a | _ \<Rightarrow> \<lparr>ncols = 0, rows = [], dtype = Floating\<rparr>)"

definition the_floats3 :: "obj \<Rightarrow> array3d" where
  "the_floats3 v = (case v of Floats3 a \<Rightarrow> a | _ \<Rightarrow> \<lparr>nsamples = 0, nchans = 0, items = [], dtype3 = Floating\<rparr>)"

definition the_bools2 :: "obj \<Rightarrow> bool list list" where
  "the_bools2 v = (case v of Bools2 a \<Rightarrow> a | _ \<Rightarrow> [])"

definition the_peaks :: "obj \<Rightarrow> peak list" where
  "the_peaks v = (case v of PeakArray a \<Rightarrow> a | _ \<Rightarrow> [])"

definition the_parents :: "obj \<Rightarrow> shell_order list" where
  "the_parents v = (case v of Parents a \<Rightarrow> a | _ \<Rightarrow> [])"

definition the_xy :: "obj \<Rightarrow> xy_record list" where
  "the_xy v = (case v of RecordsXY a \<Rightarrow> a | _ \<Rightarrow> [])"

definition the_xyza :: "obj \<Rightarrow> xyza_record list" where
  "the_xyza v = (case v of RecordsXYZA a \<Rightarrow> a | _ \<Rightarrow> [])"

text \<open>
  A step holds the addresses of its arrays; the step of the sections above is
  what these addresses hold in the current store.
\<close>

record step_refs =
  contact_locations_at :: nat
  neighbours_mask_at :: nat
  nbefore_of :: int
  nafter_of :: int

record com_refs = step_refs +
  feature_of :: string

record monopolar_refs = step_refs +
  max_distance_um_of :: real
  optimizer_of :: string
  radial_parents_at :: "nat option"

definition pipeline_step_in :: "store \<Rightarrow> 'a step_refs_scheme \<Rightarrow> pipeline_step" where
  "pipeline_step_in h refs =
     \<lparr>contact_locations = the_floats2 (h ! contact_locations_at refs),
      neighbours_mask = the_bools2 (h ! neighbours_mask_at refs),
      nbefore = nbefore_of refs, nafter = nafter_of refs\<rparr>"

definition com_step_in :: "store \<Rightarrow> 'a com_refs_scheme \<Rightarrow> com_step" where
  "com_step_in h refs =
     \<lparr>contact_locations = the_floats2 (h ! contact_locations_at refs),
      neighbours_mask = the_bools2 (h ! neighbours_mask_at refs),
      nbefore = nbefore_of refs, nafter = nafter_of refs, feature = feature_of refs\<rparr>"

definition monopolar_step_in :: "store \<Rightarrow> 'a monopolar_refs_scheme \<Rightarrow> monopolar_step" where
  "monopolar_step_in h refs =
     \<lparr>contact_locations = the_floats2 (h ! contact_locations_at refs),
      neighbours_mask = the_bools2 (h ! neighbours_mask_at refs),
      nbefore = nbefore_of refs, nafter = nafter_of refs,
      max_distance_um = max_distance_um_of refs, optimizer = optimizer_of refs,
      enforce_decrease_radial_parents = map_option (\<lambda>a. the_parents (h ! a)) (radial_parents_at refs)\<rparr>"

text \<open>A loop whose turns update the store; an exception leaves it.\<close>

fun for_each :: "('a \<Rightarrow> store \<Rightarrow> py_error + store) \<Rightarrow> 'a list \<Rightarrow> store \<Rightarrow> py_error + store" where
  "for_each body [] h = Inr h"
| "for_each body (a # as) h = bindE (body a h) (for_each body as)"

text \<open>
  \<^verbatim>\<open>LocalizePeakChannel.compute_buffer\<close>: \<^verbatim>\<open>peak_locations\<close> is a new array, each turn
  reads the peak and the contact locations in place and writes into
  \<^verbatim>\<open>peak_locations\<close>.
\<close>

definition peak_channel_turn ::
  "'a step_refs_scheme \<Rightarrow> nat \<Rightarrow> nat \<Rightarrow> nat \<Rightarrow> store \<Rightarrow> py_error + store" where
  "peak_channel_turn refs a_peaks a_out index h =
     bindE (peak_channel_body (pipeline_step_in h refs) (channel_ind (the_peaks (h ! a_peaks) ! index)))
       (\<lambda>loc. Inr (h[a_out := RecordsXY ((the_xy (h ! a_out))[index := loc])]))"

definition peak_channel_compute_buffer_in ::
  "'a step_refs_scheme \<Rightarrow> nat \<Rightarrow> nat \<Rightarrow> store \<Rightarrow> py_error + nat \<times> store" where
  "peak_channel_compute_buffer_in refs a_traces a_peaks h =
     (let n = length (the_peaks (h ! a_peaks));
          (a_out, h1) = new (RecordsXY (zeros_xy n)) h
      in bindE (for_each (peak_channel_turn refs a_peaks a_out) [0..<n] h1) (\<lambda>h'. Inr (a_out, h')))"

text \<open>
  \<^verbatim>\<open>LocalizeCenterOfMass.compute_buffer\<close>: \<^verbatim>\<open>idx\<close>, \<^verbatim>\<open>chan_inds\<close>,
  \<^verbatim>\<open>local_contact_locations\<close>, \<^verbatim>\<open>wf_data\<close> and \<^verbatim>\<open>coms\<close> are new arrays of each turn;
  the two assignments write into \<^verbatim>\<open>peak_locations\<close>.
\<close>

definition com_turn ::
  "'a com_refs_scheme \<Rightarrow> nat \<Rightarrow> nat \<Rightarrow> nat \<Rightarrow> int \<Rightarrow> store \<Rightarrow> py_error + store" where
  "com_turn refs a_peaks a_waveforms a_out main_chan h =
     (let step = com_step_in h refs;
          idx = nonzero (map (\<lambda>p. channel_ind p = main_chan) (the_peaks (h ! a_peaks)));
          (a_idx, h1) = new (Ints idx) h in
      bindE (getitem (neighbours_mask step) main_chan) (\<lambda>mask_row.
      let chan_inds = nonzero mask_row;
          (a_chan_inds, h2) = new (Ints chan_inds) h1 in
      bindE (take_rows (contact_locations step) chan_inds) (\<lambda>local_contact_locations.
      let (a_local, h3) = new (Floats2 local_contact_locations) h2 in
      bindE (com_wf_data (feature step) (nbefore step) (the_floats3 (h3 ! a_waveforms)) idx chan_inds)
        (\<lambda>wf_data.
      let (a_wf_data, h4) = new (Weights wf_data) h3;
          coms = map (com_row local_contact_locations) wf_data;
          (a_coms, h5) = new (Weights coms) h4 in
      bindE (coms_column (ncols local_contact_locations) coms 0) (\<lambda>xs.
      let h6 = h5[a_out := RecordsXY (assign_x (the_xy (h5 ! a_out)) idx xs)] in
      bindE (coms_column (ncols local_contact_locations) coms 1) (\<lambda>ys.
      Inr (h6[a_out := RecordsXY (assign_y (the_xy (h6 ! a_out)) idx ys)])))))))"

definition com_compute_buffer_in ::
  "'a com_refs_scheme \<Rightarrow> nat \<Rightarrow> nat \<Rightarrow> nat \<Rightarrow> store \<Rightarrow> py_error + nat \<times> store" where
  "com_compute_buffer_in refs a_traces a_peaks a_waveforms h =
     (let peaks = the_peaks (h ! a_peaks);
          (a_out, h1) = new (RecordsXY (zeros_xy (length peaks))) h;
          main_chans = unique (map channel_ind peaks);
          (a_unique, h2) = new (IntValues main_chans) h1
      in bindE (for_each (com_turn refs a_peaks a_waveforms a_out) main_chans h2)
           (\<lambda>h'. Inr (a_out, h')))"

text \<open>
  Modelled from the spec: \<^verbatim>\<open>enforce_decrease_shells_ptp\<close> with \<^verbatim>\<open>in_place=True\<close> (the
  function is not among the sources) writes the adjusted amplitudes into the
  array it was given.
\<close>

definition enforce_decrease_shells_ptp_in_place ::
  "nat \<Rightarrow> int \<Rightarrow> shell_order list \<Rightarrow> store \<Rightarrow> py_error + store" where
  "enforce_decrease_shells_ptp_in_place a_wf_ptp maxchan radial_parents h =
     bindE (enforce_decrease_shells_ptp (the_floats1 (h ! a_wf_ptp)) maxchan radial_parents)
       (\<lambda>amps. Inr (h[a_wf_ptp := Floats1 amps]))"

text \<open>
  \<^verbatim>\<open>LocalizeMonopolarTriangulation.compute_buffer\<close>: the mask row and the slice of
  the traces are views; \<^verbatim>\<open>chan_inds\<close>, \<^verbatim>\<open>local_contact_locations\<close>, \<^verbatim>\<open>wf\<close> and \<^verbatim>\<open>wf_ptp\<close>
  are new arrays of each turn. The enforcer updates \<^verbatim>\<open>wf_ptp\<close> in place, the fit
  reads it afterwards, and the record is written into \<^verbatim>\<open>peak_locations\<close>.
\<close>

definition monopolar_amplitudes_in ::
  "'a monopolar_refs_scheme \<Rightarrow> nat \<Rightarrow> peak \<Rightarrow> nat list \<Rightarrow> store \<Rightarrow> py_error + nat \<times> store" where
  "monopolar_amplitudes_in refs a_traces pk chan_inds h =
     bindE (take_columns (monopolar_window (monopolar_step_in h refs) (the_floats2 (h ! a_traces)) pk)
              chan_inds) (\<lambda>wf.
     let (a_wf, h1) = new (Floats2 wf) h in
     bindE (ptp_axis0 wf) (\<lambda>wf_ptp.
     let (a_wf_ptp, h2) = new (Floats1 wf_ptp) h1 in
     case radial_parents_at refs of
       None \<Rightarrow> Inr (a_wf_ptp, h2)
     | Some a_parents \<Rightarrow>
         bindE (enforce_decrease_shells_ptp_in_place a_wf_ptp (channel_ind pk)
                  (the_parents (h2 ! a_parents)) h2)
           (\<lambda>h3. Inr (a_wf_ptp, h3))))"

definition monopolar_turn ::
  "(real list \<Rightarrow> array2d \<Rightarrow> real \<Rightarrow> string \<Rightarrow> py_error + xyza_record) \<Rightarrow>
   'a monopolar_refs_scheme \<Rightarrow> nat \<Rightarrow> nat \<Rightarrow> nat \<Rightarrow> nat \<Rightarrow> store \<Rightarrow> py_error + store" where
  "monopolar_turn solve refs a_traces a_peaks a_out i h =
     (let step = monopolar_step_in h refs;
          pk = the_peaks (h ! a_peaks) ! i in
      bindE (getitem (neighbours_mask step) (channel_ind pk)) (\<lambda>chan_mask.
      let chan_inds = nonzero chan_mask;
          (a_chan_inds, h1) = new (Ints chan_inds) h in
      bindE (take_rows (contact_locations step) chan_inds) (\<lambda>local_contact_locations.
      let (a_local, h2) = new (Floats2 local_contact_locations) h1 in
      bindE (monopolar_amplitudes_in refs a_traces pk chan_inds h2) (\<lambda>(a_wf_ptp, h3).
      bindE (solve (the_floats1 (h3 ! a_wf_ptp)) local_contact_locations
               (max_distance_um step) (optimizer step)) (\<lambda>loc.
      Inr (h3[a_out := RecordsXYZA ((the_xyza (h3 ! a_out))[i := loc])]))))))"

definition monopolar_compute_buffer_in ::
  "(real list \<Rightarrow> array2d \<Rightarrow> real \<Rightarrow> string \<Rightarrow> py_error + xyza_record) \<Rightarrow>
   'a monopolar_refs_scheme \<Rightarrow> nat \<Rightarrow> nat \<Rightarrow> store \<Rightarrow> py_error + nat \<times> store" where
  "monopolar_compute_buffer_in solve refs a_traces a_peaks h =
     (let n = length (the_peaks (h ! a_peaks));
          (a_out, h1) = new (RecordsXYZA (zeros_xyza n)) h
      in bindE (for_each (monopolar_turn solve refs a_traces a_peaks a_out) [0..<n] h1)
           (\<lambda>h'. Inr (a_out, h')))"

text \<open>
  \<open>h'\<close> has every object of \<open>h\<close>, and the objects below address \<open>n\<close> are the same
  in both.
\<close>

definition same_below :: "nat \<Rightarrow> store \<Rightarrow> store \<Rightarrow> bool" where
  "same_below n h h' \<longleftrightarrow> length h \<le> length h' \<and> take n h' = take n h"

text \<open>
  A store with the arrays of the probe of two contacts, its radial parents, a
  trace buffer, two peaks and their snippets, and the steps that refer to them.
\<close>

definition example_store :: store where
  "example_store =
     [Floats2 (contact_locations probe2), Bools2 (neighbours_mask probe2),
      Parents (two_shells (contact_locations probe2) (neighbours_mask probe2)),
      Floats2 traces4, PeakArray [peak_at 1 1, peak_at 2 1],
      Floats3 \<lparr>nsamples = 2, nchans = 2, items = [[[0, 0], [1, 3]], [[1, 2], [3, 1]]], dtype3 = Floating\<rparr>]"

definition example_refs :: monopolar_refs where
  "example_refs =
     \<lparr>contact_locations_at = 0, neighbours_mask_at = 1, nbefore_of = 1, nafter_of = 1,
      max_distance_um_of = 1000, optimizer_of = ''none'', radial_parents_at = Some 2\<rparr>"

definition example_com_refs :: com_refs where
  "example_com_refs =
     \<lparr>contact_locations_at = 0, neighbours_mask_at = 1, nbefore_of = 1, nafter_of = 1,
      feature_of = ''ptp''\<rparr>"

section \<open>Exceptions and loops\<close>

lemma bindE_simps [simp]:
  "bindE (Inl e) f = Inl e" "bindE (Inr v) f = f v"
  by (simp_all add: bindE_def)

lemma bindE_eq_Inr: "bindE m f = Inr r \<longleftrightarrow> (\<exists>v. m = Inr v \<and> f v = Inr r)"
  by (cases m) simp_all

lemma mapE_eq_Inr:
  "mapE f as = Inr bs \<longleftrightarrow> length bs = length as \<and> (\<forall>j<length as. f (as ! j) = Inr (bs ! j))"
proof (induction as arbitrary: bs)
  case Nil
  then show ?case by auto
next
  case (Cons a as)
  show ?case
  proof (cases bs)
    case Nil
    then show ?thesis by (auto simp: bindE_eq_Inr)
  next
    case (Cons b bs')
    then show ?thesis
      using Cons.IH [of bs'] by (auto simp: bindE_eq_Inr less_Suc_eq_0_disj)
  qed
qed

lemma mapE_map: "(\<And>a. a \<in> set as \<Longrightarrow> f a = Inr (g a)) \<Longrightarrow> mapE f as = Inr (map g as)"
  by (induction as) simp_all

lemma enumerate_loop_mapE:
  "index + length as \<le> length out \<Longrightarrow>
   enumerate_loop body index as out =
     bindE (mapE body as) (\<lambda>bs. Inr (take index out @ bs @ drop (index + length as) out))"
proof (induction as arbitrary: index out)
  case Nil
  then show ?case by simp
next
  case (Cons a as)
  show ?case
  proof (cases "body a")
    case (Inl e)
    then show ?thesis by simp
  next
    case (Inr b)
    have "enumerate_loop body (Suc index) as (out[index := b]) =
      bindE (mapE body as) (\<lambda>bs. Inr (take (Suc index) (out[index := b]) @ bs @ drop (Suc index + length as) (out[index := b])))"
      using Cons.prems by (intro Cons.IH) simp
    moreover have "take (Suc index) (out[index := b]) = take index out @ [b]"
      using Cons.prems by (simp add: take_Suc_conv_app_nth)
    ultimately show ?thesis
      using Inr by (cases "mapE body as") simp_all
  qed
qed

lemma enumerate_loop_zeros:
  "length out = length as \<Longrightarrow> enumerate_loop body 0 as out = mapE body as"
  by (cases "mapE body as") (simp_all add: enumerate_loop_mapE)

lemma getitem_nat: "0 \<le> i \<Longrightarrow> i < int (length xs) \<Longrightarrow> getitem xs i = Inr (xs ! nat i)"
  by (simp add: getitem_def norm_index_def)

lemma peak_channel_compute_buffer_mapE:
  "peak_channel_compute_buffer step traces peaks = mapE (peak_channel_body step) (map channel_ind peaks)"
  by (simp add: peak_channel_compute_buffer_def zeros_xy_def enumerate_loop_zeros)

lemma peak_channel_body_in_range:
  assumes "0 \<le> c" "c < int (length (rows (contact_locations step)))"
    and "2 \<le> length (rows (contact_locations step) ! nat c)"
  shows "peak_channel_body step c =
     Inr (Fin (rows (contact_locations step) ! nat c ! 0), Fin (rows (contact_locations step) ! nat c ! 1))"
  using assms by (auto simp: peak_channel_body_def getitem_def norm_index_def)

section \<open>The Peak-Channel strategy is a lookup\<close>

text \<open>
  Claim C3. When every peak's channel index is a channel of the geometry (whose
  positions have at least two coordinates), the Peak-Channel strategy returns,
  for every peak in order, exactly coordinates 0 and 1 of the contact position
  of the peak's channel; the trace buffer has no influence on the result.
\<close>

theorem peak_channel_lookup:
  assumes chans: "\<forall>p \<in> set peaks. 0 \<le> channel_ind p \<and> channel_ind p < int (length (rows (contact_locations step)))"
    and rect: "rect2 (contact_locations step)" and dims: "2 \<le> ncols (contact_locations step)"
  shows "peak_channel_compute_buffer step traces peaks =
           Inr (map (\<lambda>p. (Fin (rows (contact_locations step) ! nat (channel_ind p) ! 0),
                          Fin (rows (contact_locations step) ! nat (channel_ind p) ! 1))) peaks)
         \<and> peak_channel_compute_buffer step traces' peaks = peak_channel_compute_buffer step traces peaks"
proof -
  have "peak_channel_body step c =
     Inr (Fin (rows (contact_locations step) ! nat c ! 0), Fin (rows (contact_locations step) ! nat c ! 1))"
    if "c \<in> channel_ind ` set peaks" for c
  proof -
    from that chans have c: "0 \<le> c" "c < int (length (rows (contact_locations step)))" by auto
    then have "rows (contact_locations step) ! nat c \<in> set (rows (contact_locations step))"
      by (simp add: nat_less_iff)
    with rect dims have "2 \<le> length (rows (contact_locations step) ! nat c)"
      by (auto simp: rect2_def list_all_iff)
    with c show ?thesis by (rule peak_channel_body_in_range)
  qed
  then have "mapE (peak_channel_body step) (map channel_ind peaks) =
      Inr (map (\<lambda>c. (Fin (rows (contact_locations step) ! nat c ! 0),
                       Fin (rows (contact_locations step) ! nat c ! 1))) (map channel_ind peaks))"
    by (intro mapE_map) simp
  then show ?thesis
    by (simp add: peak_channel_compute_buffer_mapE comp_def)
qed

theorem peak_channel_lookup_witness:
  "peak_channel_compute_buffer
     \<lparr>contact_locations = \<lparr>ncols = 2, rows = [[0, 0], [20, 5]], dtype = Floating\<rparr>,
      neighbours_mask = [[True, True], [True, True]], nbefore = 1, nafter = 1\<rparr>
     \<lparr>ncols = 2, rows = [[3, 4]], dtype = Floating\<rparr>
     [\<lparr>sample_ind = 0, channel_ind = 1, segment_ind = 0\<rparr>,
      \<lparr>sample_ind = 0, channel_ind = 0, segment_ind = 0\<rparr>]
   = Inr [(Fin 20, Fin 5), (Fin 0, Fin 0)]"
  using peak_channel_lookup [of
     "[\<lparr>sample_ind = 0, channel_ind = 1, segment_ind = 0\<rparr>,
      \<lparr>sample_ind = 0, channel_ind = 0, segment_ind = 0\<rparr>]"
     "\<lparr>contact_locations = \<lparr>ncols = 2, rows = [[0, 0], [20, 5]], dtype = Floating\<rparr>,
      neighbours_mask = [[True, True], [True, True]], nbefore = 1, nafter = 1\<rparr>"
     "\<lparr>ncols = 2, rows = [[3, 4]], dtype = Floating\<rparr>"]
  by (simp add: rect2_def)

section \<open>The loop over the channels of the Center-of-Mass strategy\<close>

lemma map_nth_upt: "map (\<lambda>j. f (xs ! j)) [0..<length xs] = map f xs"
  by (rule nth_equalityI) simp_all

lemma column_take: "j < length chan_inds \<Longrightarrow>
  column (map (\<lambda>r. map (\<lambda>c. r ! c) chan_inds) w) j = column w (chan_inds ! j)"
  by (simp add: column_def)

lemma map_column_take:
  "map (\<lambda>j. f (column (map (\<lambda>r. map (\<lambda>c. r ! c) chan_inds) w) j)) [0..<length chan_inds]
   = map (\<lambda>c. f (column w c)) chan_inds"
  by (rule nth_equalityI) (simp_all add: column_take)

lemma com_wf_data_Inr:
  "com_wf_data feat nbef W idx chan_inds = Inr D \<longleftrightarrow>
     in_axis (length (items W)) idx \<and> wf_data_ok feat nbef W chan_inds \<and>
     D = map (\<lambda>i. map (channel_weight (dtype3 W) feat (origin_offset (nsamples W) nbef) (items W ! i)) chan_inds) idx"
proof -
  consider (ptp) "feat = ''ptp''" | (mean) "feat = ''mean''" | (energy) "feat = ''energy''"
    | (origin) "feat = ''v_origin''"
    | (other) "feat \<noteq> ''ptp''" "feat \<noteq> ''mean''" "feat \<noteq> ''energy''" "feat \<noteq> ''v_origin''"
    by blast
  then show ?thesis
  proof cases
    case ptp
    then show ?thesis
      by (auto simp: com_wf_data_def take_waveforms_def take_chans_def ptp_axis1_def wf_data_ok_def
          channel_weight_def map_column_take [where f = "\<lambda>xs. Fin (ptp (dtype3 W) xs)"]
          comp_def bindE_eq_Inr split: if_splits)
  next
    case mean
    then show ?thesis
      by (auto simp: com_wf_data_def take_waveforms_def take_chans_def mean_axis1_def wf_data_ok_def
          channel_weight_def map_column_take [where f = mean]
          comp_def bindE_eq_Inr split: if_splits)
  next
    case energy
    then show ?thesis
      by (auto simp: com_wf_data_def take_waveforms_def take_chans_def norm_axis1_def wf_data_ok_def
          channel_weight_def map_column_take [where f = "\<lambda>xs. Fin (norm2 xs)"]
          comp_def bindE_eq_Inr split: if_splits)
  next
    case origin
    then show ?thesis
      by (auto simp: com_wf_data_def take_waveforms_def sample_at_def wf_data_ok_def
          channel_weight_def comp_def origin_offset_def bindE_eq_Inr split: if_splits)
  next
    case other
    then show ?thesis
      by (simp add: com_wf_data_def wf_data_ok_def)
  qed
qed

lemma set_nonzero: "set (nonzero bs) = {i. i < length bs \<and> bs ! i}"
  by (auto simp: nonzero_def)

lemma snd_update_fst: "snd (out[i := (v, snd (out ! i))] ! j) = snd (out ! j)"
  by (cases "i = j"; cases "i < length out") (simp_all add: list_update_beyond)

lemma fst_update_snd: "fst (out[i := (fst (out ! i), v)] ! j) = fst (out ! j)"
  by (cases "i = j"; cases "i < length out") (simp_all add: list_update_beyond)

lemma assign_x_map:
  "assign_x out idx (map f idx) =
     map (\<lambda>i. if i \<in> set idx then (f i, snd (out ! i)) else out ! i) [0..<length out]"
proof (induction idx arbitrary: out)
  case Nil
  then show ?case by (simp add: assign_x_def map_nth)
next
  case (Cons i idx)
  have "assign_x out (i # idx) (map f (i # idx)) =
      assign_x (out[i := (f i, snd (out ! i))]) idx (map f idx)"
    by (simp add: assign_x_def)
  also have "\<dots> = map (\<lambda>j. if j \<in> set (i # idx) then (f j, snd (out ! j)) else out ! j) [0..<length out]"
    unfolding Cons.IH by (rule nth_equalityI) (auto simp: nth_list_update snd_update_fst fst_update_snd)
  finally show ?case .
qed

lemma assign_y_map:
  "assign_y out idx (map f idx) =
     map (\<lambda>i. if i \<in> set idx then (fst (out ! i), f i) else out ! i) [0..<length out]"
proof (induction idx arbitrary: out)
  case Nil
  then show ?case by (simp add: assign_y_def map_nth)
next
  case (Cons i idx)
  have "assign_y out (i # idx) (map f (i # idx)) =
      assign_y (out[i := (fst (out ! i), f i)]) idx (map f idx)"
    by (simp add: assign_y_def)
  also have "\<dots> = map (\<lambda>j. if j \<in> set (i # idx) then (fst (out ! j), f j) else out ! j) [0..<length out]"
    unfolding Cons.IH by (rule nth_equalityI) (auto simp: nth_list_update snd_update_fst fst_update_snd)
  finally show ?case .
qed

lemma dot_row_take:
  "dot_row ws (map (\<lambda>c. locs ! c) chan_inds) d =
     fsum (map2 (\<lambda>w p. fmul w (Fin p)) ws (map (\<lambda>c. locs ! c ! d) chan_inds))"
  by (simp add: dot_row_def zip_map2 comp_def case_prod_unfold)

lemma com_group_Inr:
  "com_group step W peaks ch out = Inr out' \<longleftrightarrow>
     group_ok step W ch \<and>
     in_axis (length (items W)) (nonzero (map (\<lambda>p. channel_ind p = ch) peaks)) \<and>
     out' = map (\<lambda>i. if i < length peaks \<and> channel_ind (peaks ! i) = ch
                      then com_peak_location step W ch i else out ! i) [0..<length out]"
proof (cases "getitem (neighbours_mask step) ch")
  case (Inl e)
  then show ?thesis by (simp add: com_group_def group_ok_def)
next
  case (Inr mask_row)
  define idx where "idx = nonzero (map (\<lambda>p. channel_ind p = ch) peaks)"
  define k where "k = origin_offset (nsamples W) (nbefore step)"
  define cs where "cs = nonzero mask_row"
  define locs where "locs = (contact_locations step)\<lparr>rows := map (\<lambda>c. rows (contact_locations step) ! c) cs\<rparr>"
  define D where "D = map (\<lambda>i. map (channel_weight (dtype3 W) (feature step) k (items W ! i)) cs) idx"
  have set_idx: "set idx = {i. i < length peaks \<and> channel_ind (peaks ! i) = ch}"
    by (auto simp: idx_def set_nonzero)
  have loc: "com_peak_location step W ch i = com_location step W k cs i" for i
    by (simp add: com_peak_location_def Inr k_def cs_def)
  have xs_eq: "map (\<lambda>r. r ! 0) (map (com_row locs) D) = map (\<lambda>i. fst (com_location step W k cs i)) idx"
    if "1 < ncols (contact_locations step)"
    using that
    by (auto simp: D_def com_row_def com_location_def Let_def locs_def
        dot_row_take weighted_centroid_def comp_def)
  have ys_eq: "map (\<lambda>r. r ! 1) (map (com_row locs) D) = map (\<lambda>i. snd (com_location step W k cs i)) idx"
    if "1 < ncols (contact_locations step)"
    using that
    by (auto simp: D_def com_row_def com_location_def Let_def locs_def
        dot_row_take weighted_centroid_def comp_def)
  have final: "assign_y (assign_x out idx (map (\<lambda>i. fst (com_location step W k cs i)) idx)) idx
          (map (\<lambda>i. snd (com_location step W k cs i)) idx) =
        map (\<lambda>i. if i < length peaks \<and> channel_ind (peaks ! i) = ch
                      then com_peak_location step W ch i else out ! i) [0..<length out]"
    unfolding assign_x_map assign_y_map
    by (rule nth_equalityI) (auto simp: set_idx loc)
  show ?thesis
  proof (cases "group_ok step W ch \<and> in_axis (length (items W)) idx")
    case True
    then have ok: "in_axis (length (rows (contact_locations step))) cs"
      "wf_data_ok (feature step) (nbefore step) W cs" "1 < ncols (contact_locations step)"
      "in_axis (length (items W)) idx"
      by (simp_all add: group_ok_def Inr cs_def)
    have "take_rows (contact_locations step) cs = Inr locs"
      using ok(1) by (simp add: take_rows_def locs_def)
    moreover have "com_wf_data (feature step) (nbefore step) W idx cs = Inr D"
      using ok(2,4) by (simp add: com_wf_data_Inr D_def k_def)
    moreover have "ncols locs = ncols (contact_locations step)"
      by (simp add: locs_def)
    ultimately have "com_group step W peaks ch out =
        Inr (assign_y (assign_x out idx (map (\<lambda>r. r ! 0) (map (com_row locs) D))) idx
               (map (\<lambda>r. r ! 1) (map (com_row locs) D)))"
      using ok(3) by (simp add: com_group_def Inr Let_def coms_column_def flip: idx_def cs_def)
    then have "com_group step W peaks ch out =
        Inr (map (\<lambda>i. if i < length peaks \<and> channel_ind (peaks ! i) = ch
                      then com_peak_location step W ch i else out ! i) [0..<length out])"
      unfolding xs_eq [OF ok(3)] ys_eq [OF ok(3)] final .
    with True show ?thesis
      unfolding idx_def by auto
  next
    case False
    have "com_group step W peaks ch out \<noteq> Inr out'"
    proof
      assume "com_group step W peaks ch out = Inr out'"
      then obtain locs' D' ys where
        l: "take_rows (contact_locations step) cs = Inr locs'"
        and d: "com_wf_data (feature step) (nbefore step) W idx cs = Inr D'"
        and y: "coms_column (ncols locs') (map (com_row locs') D') 1 = Inr ys"
        unfolding com_group_def Let_def bindE_eq_Inr Inr idx_def cs_def by auto
      from l have "in_axis (length (rows (contact_locations step))) cs"
        "ncols locs' = ncols (contact_locations step)"
        by (auto simp: take_rows_def split: if_splits)
      moreover from d have "wf_data_ok (feature step) (nbefore step) W cs" "in_axis (length (items W)) idx"
        by (simp_all add: com_wf_data_Inr)
      moreover from y have "1 < ncols locs'"
        by (auto simp: coms_column_def split: if_splits)
      ultimately show False
        using False by (simp add: group_ok_def Inr cs_def)
    qed
    with False show ?thesis unfolding idx_def by auto
  qed
qed

lemma com_loop_Inr:
  assumes "length out = length peaks"
  shows "com_loop step W peaks cs out = Inr out' \<longleftrightarrow>
     (\<forall>ch \<in> set cs. group_ok step W ch \<and>
         in_axis (length (items W)) (nonzero (map (\<lambda>p. channel_ind p = ch) peaks))) \<and>
     out' = map (\<lambda>i. if channel_ind (peaks ! i) \<in> set cs
                      then com_peak_location step W (channel_ind (peaks ! i)) i else out ! i)
              [0..<length peaks]"
  using assms
proof (induction cs arbitrary: out)
  case Nil
  have "map ((!) out) [0..<length out] = out" by (rule map_nth)
  with Nil show ?case by auto
next
  case (Cons ch cs)
  define out1 where "out1 = map (\<lambda>i. if i < length peaks \<and> channel_ind (peaks ! i) = ch
                      then com_peak_location step W ch i else out ! i) [0..<length out]"
  have len1: "length out1 = length peaks"
    using Cons.prems by (simp add: out1_def)
  have next_map: "map (\<lambda>i. if channel_ind (peaks ! i) \<in> set cs
                      then com_peak_location step W (channel_ind (peaks ! i)) i else out1 ! i)
              [0..<length peaks] =
        map (\<lambda>i. if channel_ind (peaks ! i) \<in> set (ch # cs)
                      then com_peak_location step W (channel_ind (peaks ! i)) i else out ! i)
              [0..<length peaks]"
    using Cons.prems by (auto simp: out1_def)
  have "com_loop step W peaks (ch # cs) out = Inr out' \<longleftrightarrow>
      (\<exists>o1. com_group step W peaks ch out = Inr o1 \<and> com_loop step W peaks cs o1 = Inr out')"
    by (simp add: bindE_eq_Inr)
  also have "\<dots> \<longleftrightarrow> group_ok step W ch \<and>
      in_axis (length (items W)) (nonzero (map (\<lambda>p. channel_ind p = ch) peaks)) \<and>
      com_loop step W peaks cs out1 = Inr out'"
    by (auto simp: com_group_Inr out1_def)
  finally show ?case
    unfolding Cons.IH [OF len1] next_map by auto
qed

lemma set_unique: "set (unique xs) = set xs"
  by (simp add: unique_def)

lemma in_axis_all_groups:
  "(\<forall>ch \<in> channel_ind ` set peaks. in_axis n (nonzero (map (\<lambda>p. channel_ind p = ch) peaks)))
     \<longleftrightarrow> length peaks \<le> n"
proof
  assume a: "\<forall>ch \<in> channel_ind ` set peaks. in_axis n (nonzero (map (\<lambda>p. channel_ind p = ch) peaks))"
  show "length peaks \<le> n"
  proof (cases peaks rule: rev_cases)
    case Nil
    then show ?thesis by simp
  next
    case (snoc ps p)
    then have "in_axis n (nonzero (map (\<lambda>q. channel_ind q = channel_ind p) peaks))"
      using a by simp
    moreover have "length ps \<in> set (nonzero (map (\<lambda>q. channel_ind q = channel_ind p) peaks))"
      by (simp add: set_nonzero snoc nth_append)
    ultimately have "length ps < n"
      by (auto simp: in_axis_def list_all_iff)
    then show ?thesis by (simp add: snoc)
  qed
next
  assume "length peaks \<le> n"
  then show "\<forall>ch \<in> channel_ind ` set peaks. in_axis n (nonzero (map (\<lambda>p. channel_ind p = ch) peaks))"
    by (auto simp: in_axis_def list_all_iff set_nonzero)
qed

lemma com_compute_buffer_Inr:
  "com_compute_buffer step traces peaks W = Inr out \<longleftrightarrow>
     length peaks \<le> length (items W) \<and> (\<forall>p \<in> set peaks. group_ok step W (channel_ind p)) \<and>
     out = map (\<lambda>i. com_peak_location step W (channel_ind (peaks ! i)) i) [0..<length peaks]"
proof -
  have "com_compute_buffer step traces peaks W = Inr out \<longleftrightarrow>
     (\<forall>ch \<in> channel_ind ` set peaks. group_ok step W ch \<and>
         in_axis (length (items W)) (nonzero (map (\<lambda>p. channel_ind p = ch) peaks))) \<and>
     out = map (\<lambda>i. com_peak_location step W (channel_ind (peaks ! i)) i) [0..<length peaks]"
    unfolding com_compute_buffer_def
    by (subst com_loop_Inr) (auto simp: zeros_xy_def set_unique)
  also have "(\<forall>ch \<in> channel_ind ` set peaks. group_ok step W ch \<and>
         in_axis (length (items W)) (nonzero (map (\<lambda>p. channel_ind p = ch) peaks))) \<longleftrightarrow>
      (\<forall>p \<in> set peaks. group_ok step W (channel_ind p)) \<and> length peaks \<le> length (items W)"
    using in_axis_all_groups [of peaks "length (items W)"] by blast
  finally show ?thesis by auto
qed

lemma wf_data_ok_feature:
  "wf_data_ok feat nbef W cs \<Longrightarrow> feat \<in> {''ptp'', ''mean'', ''energy'', ''v_origin''}"
  by (auto simp: wf_data_ok_def)

lemma channel_weight_offset:
  assumes "wf_data_ok feat nbef W cs" and "0 \<le> nbef"
  shows "channel_weight dt feat (origin_offset (nsamples W) nbef) = channel_weight dt feat (nat nbef)"
proof (cases "feat = ''v_origin''")
  case True
  with assms obtain k where "norm_index (nsamples W) nbef = Inr k"
    by (auto simp: wf_data_ok_def)
  with assms(2) have "origin_offset (nsamples W) nbef = nat nbef"
    by (auto simp: origin_offset_def norm_index_def split: if_splits)
  then show ?thesis by simp
next
  case False
  with wf_data_ok_feature [OF assms(1)] show ?thesis
    by (auto simp: channel_weight_def fun_eq_iff)
qed

lemma com_compute_buffer_nth:
  assumes "com_compute_buffer step traces peaks W = Inr out" and "i < length peaks"
  shows "group_ok step W (channel_ind (peaks ! i))"
    and "out ! i = com_peak_location step W (channel_ind (peaks ! i)) i"
    and "length out = length peaks"
  using assms by (auto simp: com_compute_buffer_Inr)






section \<open>The Center-of-Mass strategy computes the weighted centroid\<close>


lemmas com_eval = com_compute_buffer_def unique_def com_group_def nonzero_def getitem_def norm_index_def
  take_rows_def in_axis_def com_wf_data_def take_waveforms_def take_chans_def ptp_axis1_def ptp_def
  column_def com_row_def dot_row_def fsum_def coms_column_def assign_x_def assign_y_def zeros_xy_def
  mean_axis1_def mean_def sample_at_def Let_def



lemma group_ok_shape:
  "nsamples W' = nsamples W \<Longrightarrow> nchans W' = nchans W \<Longrightarrow> group_ok step W' ch = group_ok step W ch"
  by (simp add: group_ok_def wf_data_ok_def cong: sum.case_cong)

lemma com_peak_location_cong:
  "nsamples W' = nsamples W \<Longrightarrow> dtype3 W' = dtype3 W \<Longrightarrow> items W' ! k = items W ! i \<Longrightarrow>
   com_peak_location step W' ch k = com_peak_location step W ch i"
  by (simp add: com_peak_location_def com_location_def split: sum.splits)

lemma com_sub_buffer:
  assumes run: "com_compute_buffer step traces peaks W = Inr out"
    and js: "list_all (\<lambda>j. j < length peaks) js"
  shows "com_compute_buffer step traces (map (\<lambda>j. peaks ! j) js) (W\<lparr>items := map (\<lambda>j. items W ! j) js\<rparr>)
           = Inr (map (\<lambda>j. out ! j) js)"
proof -
  define W' where "W' = W\<lparr>items := map (\<lambda>j. items W ! j) js\<rparr>"
  have shape: "nsamples W' = nsamples W" "nchans W' = nchans W"
    by (simp_all add: W'_def)
  from run have ok: "\<forall>p \<in> set peaks. group_ok step W (channel_ind p)"
    and out: "out = map (\<lambda>i. com_peak_location step W (channel_ind (peaks ! i)) i) [0..<length peaks]"
    by (simp_all add: com_compute_buffer_Inr)
  from js have in_range: "j < length peaks" if "j \<in> set js" for j
    using that by (simp add: list_all_iff)
  have "group_ok step W' (channel_ind p)" if "p \<in> set (map (\<lambda>j. peaks ! j) js)" for p
  proof -
    from that in_range have "p \<in> set peaks" by auto
    with ok show ?thesis by (simp add: group_ok_shape [OF shape])
  qed
  moreover have "map (\<lambda>j. out ! j) js =
      map (\<lambda>k. com_peak_location step W' (channel_ind (map (\<lambda>j. peaks ! j) js ! k)) k) [0..<length js]"
  proof (rule nth_equalityI)
    show "length (map (\<lambda>j. out ! j) js) =
        length (map (\<lambda>k. com_peak_location step W' (channel_ind (map (\<lambda>j. peaks ! j) js ! k)) k) [0..<length js])"
      by simp
  next
    fix k assume "k < length (map (\<lambda>j. out ! j) js)"
    then have k: "k < length js" by simp
    then have "js ! k < length peaks" by (simp add: in_range)
    moreover have "com_peak_location step W' (channel_ind (peaks ! (js ! k))) k =
        com_peak_location step W (channel_ind (peaks ! (js ! k))) (js ! k)"
      using k by (intro com_peak_location_cong) (simp_all add: W'_def)
    ultimately show "map (\<lambda>j. out ! j) js ! k =
        map (\<lambda>k. com_peak_location step W' (channel_ind (map (\<lambda>j. peaks ! j) js ! k)) k) [0..<length js] ! k"
      using k by (simp add: out)
  qed
  ultimately show ?thesis
    unfolding W'_def [symmetric] by (simp add: com_compute_buffer_Inr W'_def)
qed

lemma com_from_single_buffers:
  assumes len: "length peaks \<le> length (items W)" "length out = length peaks"
    and single: "\<And>i. i < length peaks \<Longrightarrow>
      com_compute_buffer step traces [peaks ! i] (W\<lparr>items := [items W ! i]\<rparr>) = Inr [out ! i]"
  shows "com_compute_buffer step traces peaks W = Inr out"
proof -
  have one: "group_ok step W (channel_ind (peaks ! i)) \<and>
      out ! i = com_peak_location step W (channel_ind (peaks ! i)) i" if "i < length peaks" for i
  proof -
    define Wi where "Wi = W\<lparr>items := [items W ! i]\<rparr>"
    have shape: "nsamples Wi = nsamples W" "nchans Wi = nchans W" "items Wi ! 0 = items W ! i"
      "dtype3 Wi = dtype3 W"
      by (simp_all add: Wi_def)
    from single [OF that] have "group_ok step Wi (channel_ind (peaks ! i))"
      and "out ! i = com_peak_location step Wi (channel_ind (peaks ! i)) 0"
      by (simp_all add: com_compute_buffer_Inr Wi_def)
    then show ?thesis
      by (simp add: group_ok_shape [OF shape(1,2)] com_peak_location_cong [OF shape(1,4,3)])
  qed
  have "\<forall>p \<in> set peaks. group_ok step W (channel_ind p)"
    using one by (auto simp: in_set_conv_nth)
  moreover have "out = map (\<lambda>i. com_peak_location step W (channel_ind (peaks ! i)) i) [0..<length peaks]"
    using one len(2) by (intro nth_equalityI) simp_all
  ultimately show ?thesis
    using len(1) by (simp add: com_compute_buffer_Inr)
qed

section \<open>Grouping the peaks by channel is not observable\<close>

text \<open>
  Claim C7. When the Center-of-Mass strategy returns on a buffer, it returns on
  every buffer made of a selection \<open>js\<close> of its peaks (any group of a partition,
  a single peak) with their snippets, and the records are the same ones.
  Conversely, when each peak processed alone in a buffer of its own gives its
  record of \<open>out\<close>, the whole buffer gives \<open>out\<close>.
\<close>

theorem com_batched_equals_independent:
  assumes "length peaks \<le> length (items W)"
  shows "(com_compute_buffer step traces peaks W = Inr out \<longrightarrow>
            (\<forall>js. list_all (\<lambda>j. j < length peaks) js \<longrightarrow>
               com_compute_buffer step traces (map (\<lambda>j. peaks ! j) js)
                   (W\<lparr>items := map (\<lambda>j. items W ! j) js\<rparr>) = Inr (map (\<lambda>j. out ! j) js)))
       \<and> (length out = length peaks \<and>
            (\<forall>i<length peaks. com_compute_buffer step traces [peaks ! i] (W\<lparr>items := [items W ! i]\<rparr>)
                 = Inr [out ! i])
          \<longrightarrow> com_compute_buffer step traces peaks W = Inr out)"
  using assms com_sub_buffer [of step traces peaks W out]
    com_from_single_buffers [of peaks W out step traces]
  by blast

theorem com_batched_equals_independent_witness:
  "com_compute_buffer (com_init probe2 ''ptp'') no_traces [peak_at 5 1, peak_at 9 0, peak_at 7 1]
       \<lparr>nsamples = 2, nchans = 2, items = [[[0, 0], [1, 3]], [[2, 0], [0, 0]], [[1, 1], [2, 2]]], dtype3 = Floating\<rparr>
     = Inr [(Fin 15, Fin 0), (Fin 0, Fin 0), (Fin 10, Fin 0)]
   \<and> com_compute_buffer (com_init probe2 ''ptp'') no_traces [peak_at 7 1, peak_at 5 1]
       \<lparr>nsamples = 2, nchans = 2, items = [[[1, 1], [2, 2]], [[0, 0], [1, 3]]], dtype3 = Floating\<rparr>
     = Inr [(Fin 10, Fin 0), (Fin 15, Fin 0)]"
proof -
  let ?step = "com_init probe2 ''ptp''"
  let ?peaks = "[peak_at 5 1, peak_at 9 0, peak_at 7 1]"
  let ?W = "\<lparr>nsamples = 2, nchans = 2, items = [[[0, 0], [1, 3]], [[2, 0], [0, 0]], [[1, 1], [2, 2]]], dtype3 = Floating\<rparr>"
  let ?out = "[(Fin 15, Fin 0), (Fin 0, Fin 0), (Fin 10, Fin 0)]"
  have single: "\<forall>i<length ?peaks.
      com_compute_buffer ?step no_traces [?peaks ! i] (?W\<lparr>items := [items ?W ! i]\<rparr>) = Inr [?out ! i]"
    by (simp add: All_less_Suc com_eval com_init_def probe2_def peak_at_def)
  have whole: "com_compute_buffer ?step no_traces ?peaks ?W = Inr ?out"
    using com_batched_equals_independent [of ?peaks ?W ?step no_traces ?out] single by simp
  have "com_compute_buffer ?step no_traces (map (\<lambda>j. ?peaks ! j) [2, 0])
                   (?W\<lparr>items := map (\<lambda>j. items ?W ! j) [2, 0]\<rparr>) = Inr (map (\<lambda>j. ?out ! j) [2, 0])"
    by (rule com_batched_equals_independent [of ?peaks ?W ?step no_traces ?out,
          THEN conjunct1, rule_format, of "[2, 0]"])
      (simp_all add: whole)
  with whole show ?thesis by simp
qed

lemma monopolar_compute_buffer_mapE:
  "monopolar_compute_buffer solve step traces peaks = mapE (monopolar_body solve step traces) peaks"
  by (simp add: monopolar_compute_buffer_def zeros_xyza_def enumerate_loop_zeros)

section \<open>One record per peak, in the order of the peaks\<close>

text \<open>
  Claim C2. Each of the three strategies returns exactly when the location of
  every peak of the buffer can be computed, and then the returned sequence has
  one record per peak, the record at index \<open>i\<close> being the location computed for
  the peak at index \<open>i\<close>.
\<close>

theorem compute_buffer_one_record_per_peak:
  "(peak_channel_compute_buffer pstep traces peaks = Inr outp \<longleftrightarrow>
      length outp = length peaks \<and>
      (\<forall>i<length peaks. peak_channel_body pstep (channel_ind (peaks ! i)) = Inr (outp ! i)))
   \<and> (com_compute_buffer cstep traces peaks W = Inr outc \<longleftrightarrow>
      length peaks \<le> length (items W) \<and> length outc = length peaks \<and>
      (\<forall>i<length peaks. group_ok cstep W (channel_ind (peaks ! i)) \<and>
           outc ! i = com_peak_location cstep W (channel_ind (peaks ! i)) i))
   \<and> (monopolar_compute_buffer solve mstep traces peaks = Inr outm \<longleftrightarrow>
      length outm = length peaks \<and>
      (\<forall>i<length peaks. monopolar_body solve mstep traces (peaks ! i) = Inr (outm ! i)))"
proof (intro conjI)
  show "peak_channel_compute_buffer pstep traces peaks = Inr outp \<longleftrightarrow>
      length outp = length peaks \<and>
      (\<forall>i<length peaks. peak_channel_body pstep (channel_ind (peaks ! i)) = Inr (outp ! i))"
    by (simp add: peak_channel_compute_buffer_mapE mapE_eq_Inr)
next
  have "outc = map (\<lambda>i. com_peak_location cstep W (channel_ind (peaks ! i)) i) [0..<length peaks] \<longleftrightarrow>
      length outc = length peaks \<and>
      (\<forall>i<length peaks. outc ! i = com_peak_location cstep W (channel_ind (peaks ! i)) i)"
  proof
    assume "outc = map (\<lambda>i. com_peak_location cstep W (channel_ind (peaks ! i)) i) [0..<length peaks]"
    then show "length outc = length peaks \<and>
      (\<forall>i<length peaks. outc ! i = com_peak_location cstep W (channel_ind (peaks ! i)) i)"
      by simp
  next
    assume "length outc = length peaks \<and>
      (\<forall>i<length peaks. outc ! i = com_peak_location cstep W (channel_ind (peaks ! i)) i)"
    then show "outc = map (\<lambda>i. com_peak_location cstep W (channel_ind (peaks ! i)) i) [0..<length peaks]"
      by (intro nth_equalityI) simp_all
  qed
  moreover have "(\<forall>p \<in> set peaks. group_ok cstep W (channel_ind p)) \<longleftrightarrow>
      (\<forall>i<length peaks. group_ok cstep W (channel_ind (peaks ! i)))"
    by (simp add: all_set_conv_all_nth)
  ultimately show "com_compute_buffer cstep traces peaks W = Inr outc \<longleftrightarrow>
      length peaks \<le> length (items W) \<and> length outc = length peaks \<and>
      (\<forall>i<length peaks. group_ok cstep W (channel_ind (peaks ! i)) \<and>
           outc ! i = com_peak_location cstep W (channel_ind (peaks ! i)) i)"
    unfolding com_compute_buffer_Inr by blast
next
  show "monopolar_compute_buffer solve mstep traces peaks = Inr outm \<longleftrightarrow>
      length outm = length peaks \<and>
      (\<forall>i<length peaks. monopolar_body solve mstep traces (peaks ! i) = Inr (outm ! i))"
    by (simp add: monopolar_compute_buffer_mapE mapE_eq_Inr)
qed

lemmas monopolar_eval = monopolar_body_def monopolar_amplitudes_def monopolar_window_def
  monopolar_init_def slice_rows_def slice_def slice_bound_def take_columns_def take_rows_def
  ptp_axis0_def ptp_def column_def in_axis_def nonzero_def getitem_def norm_index_def Let_def

theorem compute_buffer_one_record_per_peak_witness:
  "peak_channel_compute_buffer probe2 traces4 [peak_at 1 1, peak_at 2 0]
     = Inr [(Fin 20, Fin 0), (Fin 0, Fin 0)]
   \<and> com_compute_buffer (com_init probe2 ''v_origin'') traces4 [peak_at 1 1, peak_at 2 0]
         \<lparr>nsamples = 2, nchans = 2, items = [[[0, 0], [1, 3]], [[1, 2], [3, 1]]], dtype3 = Floating\<rparr>
     = Inr [(Fin 15, Fin 0), (Fin 5, Fin 0)]
   \<and> monopolar_compute_buffer example_solve (monopolar_init no_parents probe2 1000 ''none'' False)
         traces4 [peak_at 1 1, peak_at 2 0]
     = Inr [(Fin 3, Fin 2, Fin 1000, Fin 0), (Fin 3, Fin 2, Fin 1000, Fin 0)]"
proof -
  note inst = compute_buffer_one_record_per_peak [where peaks = "[peak_at 1 1, peak_at 2 0]"
      and traces = traces4 and pstep = probe2 and cstep = "com_init probe2 ''v_origin''"
      and W = "\<lparr>nsamples = 2, nchans = 2, items = [[[0, 0], [1, 3]], [[1, 2], [3, 1]]], dtype3 = Floating\<rparr>"
      and solve = example_solve and mstep = "monopolar_init no_parents probe2 1000 ''none'' False"
      and outp = "[(Fin 20, Fin 0), (Fin 0, Fin 0)]"
      and outc = "[(Fin 15, Fin 0), (Fin 5, Fin 0)]"
      and outm = "[(Fin 3, Fin 2, Fin 1000, Fin 0), (Fin 3, Fin 2, Fin 1000, Fin 0)]"]
  have "peak_channel_compute_buffer probe2 traces4 [peak_at 1 1, peak_at 2 0]
     = Inr [(Fin 20, Fin 0), (Fin 0, Fin 0)]"
    unfolding inst [THEN conjunct1]
    by (simp add: All_less_Suc peak_channel_body_def getitem_def norm_index_def probe2_def peak_at_def)
  moreover have "com_compute_buffer (com_init probe2 ''v_origin'') traces4 [peak_at 1 1, peak_at 2 0]
         \<lparr>nsamples = 2, nchans = 2, items = [[[0, 0], [1, 3]], [[1, 2], [3, 1]]], dtype3 = Floating\<rparr>
     = Inr [(Fin 15, Fin 0), (Fin 5, Fin 0)]"
    unfolding inst [THEN conjunct2, THEN conjunct1]
    by (simp add: All_less_Suc group_ok_def wf_data_ok_def com_peak_location_def com_location_def
        origin_offset_def channel_weight_def weighted_centroid_def fsum_def
        in_axis_def nonzero_def getitem_def norm_index_def com_init_def probe2_def peak_at_def)
  moreover have "monopolar_compute_buffer example_solve (monopolar_init no_parents probe2 1000 ''none'' False)
         traces4 [peak_at 1 1, peak_at 2 0]
     = Inr [(Fin 3, Fin 2, Fin 1000, Fin 0), (Fin 3, Fin 2, Fin 1000, Fin 0)]"
    unfolding inst [THEN conjunct2, THEN conjunct2]
    by (simp add: All_less_Suc monopolar_eval example_solve_def probe2_def peak_at_def traces4_def)
  ultimately show ?thesis by simp
qed

lemma fsum_Fin: "fsum (map Fin ws) = Fin (sum_list ws)"
  by (induction ws) (simp_all add: fsum_def)

lemma fsum_weighted_Fin:
  "fsum (map2 (\<lambda>w p. fmul w (Fin p)) (map Fin ws) ps) = Fin (sum_list (map2 (\<lambda>w p. w * p) ws ps))"
proof (induction ws arbitrary: ps)
  case Nil
  then show ?case by (simp add: fsum_def)
next
  case (Cons w ws)
  then show ?case by (cases ps) (simp_all add: fsum_def)
qed

lemma weighted_centroid_zero_sum:
  "sum_list ws = 0 \<Longrightarrow>
   weighted_centroid (map Fin ws) ps = division_by_zero (sum_list (map2 (\<lambda>w p. w * p) ws ps))"
  by (simp add: weighted_centroid_def fsum_Fin fsum_weighted_Fin division_by_zero_def)

lemma weighted_sum_all_zero:
  "list_all (\<lambda>w. w = 0) ws \<Longrightarrow> sum_list (map2 (\<lambda>w p. w * p) ws ps) = (0::real)"
proof (induction ws arbitrary: ps)
  case Nil
  then show ?case by simp
next
  case (Cons w ws)
  then show ?case by (cases ps) simp_all
qed

section \<open>A zero sum of weights in the Center-of-Mass strategy\<close>

text \<open>
  Claim C5, as the code has it. The division by the sum of the weights has no
  guard and no sentinel of its own. Let the strategy return on a buffer, and
  let the snippet of peak \<open>i\<close> be replaced by one whose weights \<open>ws\<close> are finite
  and sum to zero. Then the strategy still returns (nothing is raised), the
  records of the other peaks are the same, and each coordinate of the record of
  peak \<open>i\<close> is what the float division of the weighted coordinate sum by zero
  gives: NaN when that sum is zero (so for weights that are all zero), and an
  infinity of its sign otherwise.
\<close>

theorem com_zero_weight_sum:
  assumes run: "com_compute_buffer step traces peaks W = Inr out"
    and i: "i < length peaks" and nb: "0 \<le> nbefore step"
    and row: "getitem (neighbours_mask step) (channel_ind (peaks ! i)) = Inr mask_row"
    and ws: "map (channel_weight (dtype3 W) (feature step) (nat (nbefore step)) w0) (nonzero mask_row) = map Fin ws"
    and zero: "sum_list ws = 0"
  shows "\<exists>out'. com_compute_buffer step traces peaks (W\<lparr>items := (items W)[i := w0]\<rparr>) = Inr out' \<and>
      length out' = length peaks \<and>
      (\<forall>j<length peaks. j \<noteq> i \<longrightarrow> out' ! j = out ! j) \<and>
      out' ! i =
        (division_by_zero (sum_list (map2 (\<lambda>w c. w * (rows (contact_locations step) ! c ! 0)) ws (nonzero mask_row))),
         division_by_zero (sum_list (map2 (\<lambda>w c. w * (rows (contact_locations step) ! c ! 1)) ws (nonzero mask_row)))) \<and>
      (list_all (\<lambda>w. w = 0) ws \<longrightarrow> out' ! i = (NaN, NaN))"
proof -
  define W' where "W' = W\<lparr>items := (items W)[i := w0]\<rparr>"
  define out' where "out' = map (\<lambda>j. com_peak_location step W' (channel_ind (peaks ! j)) j) [0..<length peaks]"
  have shape: "nsamples W' = nsamples W" "nchans W' = nchans W" "length (items W') = length (items W)"
    "dtype3 W' = dtype3 W"
    by (simp_all add: W'_def)
  from run have len: "length peaks \<le> length (items W)"
    and ok: "\<forall>p \<in> set peaks. group_ok step W (channel_ind p)"
    and out: "out = map (\<lambda>j. com_peak_location step W (channel_ind (peaks ! j)) j) [0..<length peaks]"
    by (simp_all add: com_compute_buffer_Inr)
  have run': "com_compute_buffer step traces peaks W' = Inr out'"
    using len ok by (simp add: com_compute_buffer_Inr shape group_ok_shape [OF shape(1,2)] out'_def)
  have others: "out' ! j = out ! j" if "j < length peaks" "j \<noteq> i" for j
  proof -
    have "items W' ! j = items W ! j" using that by (simp add: W'_def)
    with that(1) show ?thesis
      by (simp add: out out'_def com_peak_location_cong [OF shape(1,4)])
  qed
  have w0: "items W' ! i = w0" using i len by (simp add: W'_def)
  from ok i have "group_ok step W (channel_ind (peaks ! i))" by simp
  with row have "wf_data_ok (feature step) (nbefore step) W (nonzero mask_row)"
    by (simp add: group_ok_def)
  then have "wf_data_ok (feature step) (nbefore step) W' (nonzero mask_row)"
    by (simp add: wf_data_ok_def shape)
  from channel_weight_offset [OF this nb]
  have weights: "map (channel_weight (dtype3 W') (feature step) (origin_offset (nsamples W') (nbefore step)) w0)
      (nonzero mask_row) = map Fin ws"
    using ws by (simp add: shape(4))
  have map2_comp: "map2 (\<lambda>w p. w * p) ws (map f cs) = map2 (\<lambda>w c. w * f c) ws cs" for f :: "nat \<Rightarrow> real" and cs
    by (simp add: zip_map2 case_prod_unfold)
  have at_i: "out' ! i =
        (division_by_zero (sum_list (map2 (\<lambda>w c. w * (rows (contact_locations step) ! c ! 0)) ws (nonzero mask_row))),
         division_by_zero (sum_list (map2 (\<lambda>w c. w * (rows (contact_locations step) ! c ! 1)) ws (nonzero mask_row))))"
    using i by (simp add: out'_def com_peak_location_def row com_location_def w0 weights
        weighted_centroid_zero_sum [OF zero] map2_comp)
  have "out' ! i = (NaN, NaN)" if "list_all (\<lambda>w. w = 0) ws"
    unfolding at_i map2_comp [symmetric]
    by (simp add: weighted_sum_all_zero [OF that] division_by_zero_def)
  with run' others at_i show ?thesis
    unfolding W'_def by (auto simp: out'_def)
qed

theorem com_zero_weight_sum_witness:
  "\<exists>out'. com_compute_buffer (com_init probe2 ''v_origin'') no_traces [peak_at 5 1, peak_at 9 0]
        \<lparr>nsamples = 2, nchans = 2, items = [[[0, 0], [1, - 1]], [[1, 2], [3, 1]]], dtype3 = Floating\<rparr> = Inr out' \<and>
      out' ! 0 = (NInf, NaN) \<and> out' ! 1 = (Fin 5, Fin 0)"
proof -
  let ?step = "com_init probe2 ''v_origin''"
  let ?peaks = "[peak_at 5 1, peak_at 9 0]"
  let ?W = "\<lparr>nsamples = 2, nchans = 2, items = [[[0, 0], [1, 3]], [[1, 2], [3, 1]]], dtype3 = Floating\<rparr>"
  have run: "com_compute_buffer ?step no_traces ?peaks ?W = Inr [(Fin 15, Fin 0), (Fin 5, Fin 0)]"
    by (simp add: com_eval com_init_def probe2_def peak_at_def)
  have row: "getitem (neighbours_mask ?step) (channel_ind (?peaks ! 0)) = Inr [True, True]"
    by (simp add: getitem_def norm_index_def com_init_def probe2_def peak_at_def)
  have ws: "map (channel_weight (dtype3 ?W) (feature ?step) (nat (nbefore ?step)) [[0, 0], [1, - 1]])
      (nonzero [True, True]) = map Fin [1, - 1]"
    by (simp add: channel_weight_def nonzero_def com_init_def probe2_def)
  from com_zero_weight_sum [OF run _ _ row ws]
  show ?thesis
    by (simp add: com_init_def probe2_def nonzero_def division_by_zero_def All_less_Suc) blast
qed

text \<open>
  The claim as stated fails: two snippets whose weights sum to zero give two
  different records, one of them with an infinite coordinate, so the result is
  the raw quotient by zero and no sentinel.
\<close>

theorem com_zero_weight_sum_counterexample:
  "com_compute_buffer (com_init probe2 ''v_origin'') no_traces [peak_at 5 1]
        \<lparr>nsamples = 2, nchans = 2, items = [[[0, 0], [0, 0]]], dtype3 = Floating\<rparr> = Inr [(NaN, NaN)]
   \<and> com_compute_buffer (com_init probe2 ''v_origin'') no_traces [peak_at 5 1]
        \<lparr>nsamples = 2, nchans = 2, items = [[[0, 0], [1, - 1]]], dtype3 = Floating\<rparr> = Inr [(NInf, NaN)]"
  by (simp add: com_eval com_init_def probe2_def peak_at_def)

section \<open>The method name is checked before anything runs\<close>

text \<open>
  Claim C8. A method name outside the three supported ones makes
  \<^verbatim>\<open>localize_peaks\<close> fail with the assertion error whatever the execution engine
  is, so before the engine is entered and any buffer processed. For a
  supported name the choice of the step does not raise that error: it gives the
  step of that name, or a TypeError when a keyword is not one of the step's.
\<close>

theorem localize_peaks_method_check:
  "(method \<notin> {''peak_channel'', ''center_of_mass'', ''monopolar_triangulation''} \<longrightarrow>
      localize_peaks run_peak_pipeline make_parents base peaks method kwargs = Inl AssertionError)
   \<and> (method \<in> {''peak_channel'', ''center_of_mass'', ''monopolar_triangulation''} \<longrightarrow>
      localize_peaks_step make_parents base method kwargs \<noteq> Inl AssertionError \<and>
      (localize_peaks_step make_parents base method kwargs = Inl TypeError \<or>
       (\<exists>step. localize_peaks_step make_parents base method kwargs = Inr step \<and>
          (case step of
             CenterOfMass s \<Rightarrow> method = ''center_of_mass''
           | MonopolarTriangulation s \<Rightarrow> method = ''monopolar_triangulation''
           | PeakChannel s \<Rightarrow> method = ''peak_channel''))))"
  by (auto simp: localize_peaks_def localize_peaks_step_def possible_localization_methods_def)

theorem localize_peaks_method_check_witness:
  "localize_peaks (\<lambda>step peaks. Inr (length peaks)) no_parents probe2 [peak_at 5 1] ''centre_of_mass'' no_kwargs
     = Inl AssertionError
   \<and> localize_peaks_step no_parents probe2 ''peak_channel'' no_kwargs = Inr (PeakChannel probe2)"
proof -
  have "localize_peaks_step no_parents probe2 ''peak_channel'' no_kwargs \<noteq> Inl TypeError"
    by (simp add: localize_peaks_step_def possible_localization_methods_def no_kwargs_def)
  with localize_peaks_method_check [of "''peak_channel''" "\<lambda>step peaks. Inr (length peaks)" no_parents probe2
      "[peak_at 5 1]" no_kwargs]
  have "localize_peaks_step no_parents probe2 ''peak_channel'' no_kwargs = Inr (PeakChannel probe2)"
    by (auto simp: localize_peaks_step_def possible_localization_methods_def no_kwargs_def split: step.splits)
  with localize_peaks_method_check [of "''centre_of_mass''" "\<lambda>step peaks. Inr (length peaks)" no_parents probe2
      "[peak_at 5 1]" no_kwargs]
  show ?thesis by simp
qed

section \<open>An unsupported feature is not rejected when the step is built\<close>

text \<open>
  Claim C6 does not hold of the code. For a feature outside the four supported
  ones \<^verbatim>\<open>localize_peaks\<close> builds the Center-of-Mass step without any error; a
  buffer without peaks is then processed without error, and a buffer with a
  peak fails inside \<^verbatim>\<open>compute_buffer\<close>.
\<close>

theorem com_unsupported_feature_not_rejected:
  assumes "feat \<notin> {''ptp'', ''mean'', ''energy'', ''v_origin''}"
  shows "localize_peaks_step make_parents base ''center_of_mass'' (no_kwargs\<lparr>kw_feature := Some feat\<rparr>)
           = Inr (CenterOfMass (com_init base feat))
     \<and> com_compute_buffer (com_init base feat) traces [] W = Inr []
     \<and> (peaks \<noteq> [] \<longrightarrow> (\<exists>e. com_compute_buffer (com_init base feat) traces peaks W = Inl e))"
proof (intro conjI impI)
  show "localize_peaks_step make_parents base ''center_of_mass'' (no_kwargs\<lparr>kw_feature := Some feat\<rparr>)
           = Inr (CenterOfMass (com_init base feat))"
    by (simp add: localize_peaks_step_def possible_localization_methods_def no_kwargs_def default_def)
  show "com_compute_buffer (com_init base feat) traces [] W = Inr []"
    by (simp add: com_compute_buffer_Inr)
  assume nonempty: "peaks \<noteq> []"
  show "\<exists>e. com_compute_buffer (com_init base feat) traces peaks W = Inl e"
  proof (cases "com_compute_buffer (com_init base feat) traces peaks W")
    case (Inl e)
    then show ?thesis by blast
  next
    case (Inr out)
    from nonempty have "0 < length peaks" by simp
    from com_compute_buffer_nth(1) [OF Inr this] assms show ?thesis
      by (auto simp: group_ok_def wf_data_ok_def com_init_def split: sum.splits)
  qed
qed

text \<open>
  With the feature \<^verbatim>\<open>'amplitude'\<close> the failure is the read of \<^verbatim>\<open>wf_data\<close>, which no
  branch of the chain has bound.
\<close>

theorem com_unsupported_feature_not_rejected_witness:
  "localize_peaks_step no_parents probe2 ''center_of_mass'' (no_kwargs\<lparr>kw_feature := Some ''amplitude''\<rparr>)
     = Inr (CenterOfMass (com_init probe2 ''amplitude''))
   \<and> com_compute_buffer (com_init probe2 ''amplitude'') no_traces []
        \<lparr>nsamples = 2, nchans = 2, items = [], dtype3 = Floating\<rparr> = Inr []
   \<and> com_compute_buffer (com_init probe2 ''amplitude'') no_traces [peak_at 5 1]
        \<lparr>nsamples = 2, nchans = 2, items = [[[0, 0], [1, 3]]], dtype3 = Floating\<rparr> = Inl UnboundLocalError"
proof -
  have "com_compute_buffer (com_init probe2 ''amplitude'') no_traces [peak_at 5 1]
        \<lparr>nsamples = 2, nchans = 2, items = [[[0, 0], [1, 3]]], dtype3 = Floating\<rparr> = Inl UnboundLocalError"
    by (simp add: com_eval com_init_def probe2_def peak_at_def)
  with com_unsupported_feature_not_rejected [of "''amplitude''" no_parents probe2 no_traces
      "\<lparr>nsamples = 2, nchans = 2, items = [], dtype3 = Floating\<rparr>"]
  show ?thesis by simp
qed




section \<open>The window of a peak near the edges of the trace buffer\<close>




section \<open>The Monotonicity Enforcer\<close>

lemma amin_Min: "xs \<noteq> [] \<Longrightarrow> amin xs = Min (set xs)"
  by (induction xs rule: amin.induct) simp_all

lemma length_clamp_shell: "length (clamp_shell m shell amps) = length amps"
  unfolding clamp_shell_def by (induction shell arbitrary: amps) simp_all

lemma clamp_shell_nth:
  "c < length amps \<Longrightarrow>
   clamp_shell m shell amps ! c = (if c \<in> set shell then min m (amps ! c) else amps ! c)"
proof (induction shell arbitrary: amps)
  case Nil
  then show ?case by (simp add: clamp_shell_def)
next
  case (Cons a shell)
  define amps' where "amps' = (if m < amps ! a then amps[a := m] else amps)"
  have len: "length amps' = length amps" by (simp add: amps'_def)
  have step: "amps' ! c = (if c = a then min m (amps ! c) else amps ! c)"
    using Cons.prems by (auto simp: amps'_def)
  have "clamp_shell m (a # shell) amps ! c = clamp_shell m shell amps' ! c"
    by (simp add: clamp_shell_def amps'_def)
  also have "\<dots> = (if c \<in> set shell then min m (amps' ! c) else amps' ! c)"
    using Cons.prems by (intro Cons.IH) (simp add: len)
  also have "\<dots> = (if c \<in> set (a # shell) then min m (amps ! c) else amps ! c)"
    unfolding step by auto
  finally show ?case .
qed

lemma enforce_shells_props:
  assumes "distinct (concat (prev # rest))"
    and "\<forall>s \<in> set (prev # rest). s \<noteq> [] \<and> (\<forall>c \<in> set s. c < length amps)"
  shows "length (enforce_shells amps prev rest) = length amps
    \<and> (\<forall>c<length amps. c \<notin> set (concat rest) \<longrightarrow> enforce_shells amps prev rest ! c = amps ! c)
    \<and> (\<forall>k<length rest. \<forall>c \<in> set (rest ! k).
          enforce_shells amps prev rest ! c
            \<le> Min ((\<lambda>p. enforce_shells amps prev rest ! p) ` set ((prev # rest) ! k)))"
  using assms
proof (induction rest arbitrary: amps prev)
  case Nil
  then show ?case by simp
next
  case (Cons shell rest)
  define m where "m = amin (map (\<lambda>c. amps ! c) prev)"
  define amps' where "amps' = clamp_shell m shell amps"
  define out where "out = enforce_shells amps' shell rest"
  have out_eq: "enforce_shells amps prev (shell # rest) = out"
    by (simp add: out_def amps'_def m_def)
  have len': "length amps' = length amps"
    by (simp add: amps'_def length_clamp_shell)
  have prev: "prev \<noteq> []" "\<forall>c \<in> set prev. c < length amps"
    and shell: "\<forall>c \<in> set shell. c < length amps"
    using Cons.prems(2) by auto
  have m_Min: "m = Min ((\<lambda>c. amps ! c) ` set prev)"
    using prev(1) by (simp add: m_def amin_Min)
  have "distinct (concat (shell # rest))"
    using Cons.prems(1) by simp
  moreover have "\<forall>s \<in> set (shell # rest). s \<noteq> [] \<and> (\<forall>c \<in> set s. c < length amps')"
    using Cons.prems(2) by (simp add: len')
  ultimately have IH: "length out = length amps'"
    "\<forall>c<length amps'. c \<notin> set (concat rest) \<longrightarrow> out ! c = amps' ! c"
    "\<forall>k<length rest. \<forall>c \<in> set (rest ! k). out ! c \<le> Min ((\<lambda>p. out ! p) ` set ((shell # rest) ! k))"
    using Cons.IH [of shell amps'] unfolding out_def by blast+
  have keep: "out ! c = amps ! c" if "c < length amps" "c \<notin> set (concat (shell # rest))" for c
  proof -
    from that(2) have "c \<notin> set (concat rest)" "c \<notin> set shell" by auto
    moreover from this(1) IH(2) that(1) have "out ! c = amps' ! c" by (simp add: len')
    ultimately show ?thesis using that(1) by (simp add: amps'_def clamp_shell_nth)
  qed
  have prev_same: "(\<lambda>p. out ! p) ` set prev = (\<lambda>c. amps ! c) ` set prev"
  proof (rule image_cong [OF refl])
    fix p assume "p \<in> set prev"
    with Cons.prems(1) prev(2) show "out ! p = amps ! p"
      by (intro keep) auto
  qed
  have first: "out ! c \<le> Min ((\<lambda>p. out ! p) ` set prev)" if "c \<in> set shell" for c
  proof -
    from that Cons.prems(1) have "c \<notin> set (concat rest)" by auto
    moreover from that shell have "c < length amps" by simp
    moreover from calculation IH(2) have "out ! c = amps' ! c" by (simp add: len')
    ultimately have "out ! c = min m (amps ! c)"
      using that by (simp add: amps'_def clamp_shell_nth)
    then show ?thesis by (simp add: prev_same m_Min)
  qed
  have "\<forall>k<length (shell # rest). \<forall>c \<in> set ((shell # rest) ! k).
          out ! c \<le> Min ((\<lambda>p. out ! p) ` set ((prev # shell # rest) ! k))"
  proof (intro allI impI)
    fix k assume "k < length (shell # rest)"
    then show "\<forall>c \<in> set ((shell # rest) ! k). out ! c \<le> Min ((\<lambda>p. out ! p) ` set ((prev # shell # rest) ! k))"
      using first IH(3) by (cases k) simp_all
  qed
  with IH(1) keep show ?case
    unfolding out_eq by (simp add: len')
qed

lemma monopolar_window_init:
  "monopolar_window (monopolar_init make_parents base d opt e) traces pk = monopolar_window base traces pk"
  by (simp add: monopolar_window_def monopolar_init_def)

lemma length_ptp_take_columns:
  "bindE (take_columns A chan_inds) ptp_axis0 = Inr wf_ptp \<Longrightarrow> length wf_ptp = length chan_inds"
  by (auto simp: bindE_eq_Inr take_columns_def ptp_axis0_def split: if_splits)

text \<open>
  Claim C4. The enforcer is applied to the peak-to-peak vector of a peak exactly
  when the step was built with \<^verbatim>\<open>enforce_decrease\<close> set: without it the vector
  reaches the fit as it is. With it, for a well-formed shell order of the peak's
  channel, the vector that reaches the fit has, for every shell \<open>k > 0\<close>, every
  amplitude of shell \<open>k\<close> at most the minimum amplitude of shell \<open>k - 1\<close>, and the
  amplitudes of shell 0 are the ones computed.
\<close>

theorem monopolar_enforce_decrease:
  assumes shells: "getitem (make_parents (contact_locations base) (neighbours_mask base)) (channel_ind pk)
      = Inr shells"
    and wf: "wf_shells (length chan_inds) shells"
    and ptp: "bindE (take_columns (monopolar_window base traces pk) chan_inds) ptp_axis0 = Inr wf_ptp"
  shows "(enforce_decrease_radial_parents (monopolar_init make_parents base d opt e) = None \<longleftrightarrow> \<not> e)
    \<and> monopolar_amplitudes (monopolar_init make_parents base d opt False) traces pk chan_inds = Inr wf_ptp
    \<and> (\<exists>amps. monopolar_amplitudes (monopolar_init make_parents base d opt True) traces pk chan_inds = Inr amps
          \<and> length amps = length wf_ptp
          \<and> (\<forall>k. 0 < k \<and> k < length shells \<longrightarrow>
                (\<forall>c \<in> set (shells ! k). amps ! c \<le> Min ((\<lambda>p. amps ! p) ` set (shells ! (k - 1)))))
          \<and> (\<forall>c \<in> set (shells ! 0). amps ! c = wf_ptp ! c))"
proof -
  have none: "enforce_decrease_radial_parents (monopolar_init make_parents base d opt e) = None \<longleftrightarrow> \<not> e"
    by (simp add: monopolar_init_def)
  have rp_off: "enforce_decrease_radial_parents (monopolar_init make_parents base d opt False) = None"
    and rp_on: "enforce_decrease_radial_parents (monopolar_init make_parents base d opt True) =
      Some (make_parents (contact_locations base) (neighbours_mask base))"
    by (simp_all add: monopolar_init_def)
  from ptp obtain wf_arr where cols: "take_columns (monopolar_window base traces pk) chan_inds = Inr wf_arr"
    and red: "ptp_axis0 wf_arr = Inr wf_ptp"
    by (auto simp: bindE_eq_Inr)
  have off: "monopolar_amplitudes (monopolar_init make_parents base d opt False) traces pk chan_inds = Inr wf_ptp"
    by (simp add: monopolar_amplitudes_def monopolar_window_init rp_off cols red)
  from wf obtain shell0 rest where sh: "shells = shell0 # rest"
    by (cases shells) (simp_all add: wf_shells_def)
  define amps where "amps = enforce_shells wf_ptp shell0 rest"
  have len: "length wf_ptp = length chan_inds"
    using ptp by (rule length_ptp_take_columns)
  have on: "monopolar_amplitudes (monopolar_init make_parents base d opt True) traces pk chan_inds = Inr amps"
    using shells
    by (simp add: monopolar_amplitudes_def monopolar_window_init rp_on cols red
        enforce_decrease_shells_ptp_def sh amps_def)
  have "distinct (concat (shell0 # rest))"
    using wf by (simp add: wf_shells_def sh)
  moreover have "\<forall>s \<in> set (shell0 # rest). s \<noteq> [] \<and> (\<forall>c \<in> set s. c < length wf_ptp)"
    using wf by (simp add: wf_shells_def sh len list_all_iff)
  ultimately have props: "length amps = length wf_ptp"
    "\<forall>c<length wf_ptp. c \<notin> set (concat rest) \<longrightarrow> amps ! c = wf_ptp ! c"
    "\<forall>k<length rest. \<forall>c \<in> set (rest ! k). amps ! c \<le> Min ((\<lambda>p. amps ! p) ` set ((shell0 # rest) ! k))"
    using enforce_shells_props [of shell0 rest wf_ptp] unfolding amps_def by blast+
  have mono: "\<forall>c \<in> set (shells ! k). amps ! c \<le> Min ((\<lambda>p. amps ! p) ` set (shells ! (k - 1)))"
    if "0 < k" "k < length shells" for k
    using that props(3) by (cases k) (simp_all add: sh)
  have zero: "\<forall>c \<in> set (shells ! 0). amps ! c = wf_ptp ! c"
  proof
    fix c assume c: "c \<in> set (shells ! 0)"
    then have "c \<notin> set (concat rest)"
      using \<open>distinct (concat (shell0 # rest))\<close> by (auto simp: sh)
    moreover from c wf have "c < length wf_ptp"
      by (auto simp: wf_shells_def sh len list_all_iff)
    ultimately show "amps ! c = wf_ptp ! c" using props(2) by simp
  qed
  from none off on props(1) mono zero show ?thesis by blast
qed

theorem monopolar_enforce_decrease_witness:
  "monopolar_amplitudes (monopolar_init two_shells probe2 1000 ''none'' False) traces4 (peak_at 2 1) [0, 1]
     = Inr [2, 1]
   \<and> monopolar_amplitudes (monopolar_init two_shells probe2 1000 ''none'' True) traces4 (peak_at 2 1) [0, 1]
     = Inr [1, 1]"
proof -
  have shells: "getitem (two_shells (contact_locations probe2) (neighbours_mask probe2)) (channel_ind (peak_at 2 1))
      = Inr [[1], [0]]"
    by (simp add: two_shells_def getitem_def norm_index_def peak_at_def)
  have wf: "wf_shells (length [0::nat, 1]) [[1], [0]]"
    by (simp add: wf_shells_def)
  have ptp: "bindE (take_columns (monopolar_window probe2 traces4 (peak_at 2 1)) [0, 1]) ptp_axis0 = Inr [2, 1]"
    by (simp add: monopolar_eval probe2_def peak_at_def traces4_def)
  from monopolar_enforce_decrease [where make_parents = two_shells and base = probe2
      and pk = "peak_at 2 1" and shells = "[[1], [0]]" and chan_inds = "[0, 1]" and traces = traces4
      and wf_ptp = "[2, 1]" and d = 1000 and opt = "''none''" and e = False, OF shells wf ptp]
  obtain amps where
    off: "monopolar_amplitudes (monopolar_init two_shells probe2 1000 ''none'' False) traces4 (peak_at 2 1) [0, 1]
      = Inr [2, 1]"
    and on: "monopolar_amplitudes (monopolar_init two_shells probe2 1000 ''none'' True) traces4 (peak_at 2 1) [0, 1]
      = Inr amps"
    and len: "length amps = 2"
    and mono: "amps ! 0 \<le> amps ! 1" and zero: "amps ! 1 = 1"
    by (auto simp: All_less_Suc)
  have "monopolar_amplitudes (monopolar_init two_shells probe2 1000 ''none'' True) traces4 (peak_at 2 1) [0, 1]
     = Inr [1, 1]"
    by (simp add: monopolar_amplitudes_def monopolar_window_def monopolar_init_def slice_rows_def slice_def
        slice_bound_def take_columns_def ptp_axis0_def ptp_def column_def in_axis_def
        enforce_decrease_shells_ptp_def getitem_def norm_index_def two_shells_def clamp_shell_def
        probe2_def peak_at_def traces4_def)
  with off show ?thesis by simp
qed

section \<open>No strategy writes into an array it was given\<close>

lemma same_below_refl: "same_below n h h"
  by (simp add: same_below_def)

lemma same_below_trans: "same_below n h h1 \<Longrightarrow> same_below n h1 h2 \<Longrightarrow> same_below n h h2"
  by (simp add: same_below_def)

lemma same_below_new: "n \<le> length h \<Longrightarrow> same_below n h (snd (new v h))"
  by (simp add: same_below_def new_def)

lemma same_below_update: "n \<le> a \<Longrightarrow> same_below n h (h[a := v])"
  by (simp add: same_below_def)

lemma for_each_same_below:
  assumes "\<And>a h h'. n \<le> length h \<Longrightarrow> body a h = Inr h' \<Longrightarrow> same_below n h h'"
    and "n \<le> length h" and "for_each body as h = Inr h'"
  shows "same_below n h h'"
  using assms(2,3)
proof (induction as arbitrary: h)
  case Nil
  then show ?case by (simp add: same_below_refl)
next
  case (Cons a as)
  from Cons.prems(2) obtain h1 where h1: "body a h = Inr h1" and rest: "for_each body as h1 = Inr h'"
    by (auto simp: bindE_eq_Inr)
  from assms(1) [OF Cons.prems(1) h1] have step: "same_below n h h1" .
  then have "n \<le> length h1" using Cons.prems(1) by (simp add: same_below_def)
  from Cons.IH [OF this rest] step show ?case by (rule same_below_trans [rotated])
qed

lemma peak_channel_turn_same_below:
  assumes "n \<le> a_out" and "peak_channel_turn refs a_peaks a_out index h = Inr h'"
  shows "same_below n h h'"
  using assms by (auto simp: peak_channel_turn_def bindE_eq_Inr same_below_def)

lemma com_turn_same_below:
  assumes "n \<le> a_out" and "n \<le> length h" and "com_turn refs a_peaks a_waveforms a_out main_chan h = Inr h'"
  shows "same_below n h h'"
  using assms
  by (auto simp: com_turn_def Let_def new_def bindE_eq_Inr same_below_def)

lemma enforce_in_place_same_below:
  assumes "n \<le> a" and "enforce_decrease_shells_ptp_in_place a maxchan radial_parents h = Inr h'"
  shows "same_below n h h'"
  using assms by (auto simp: enforce_decrease_shells_ptp_in_place_def bindE_eq_Inr same_below_def)

lemma monopolar_amplitudes_in_same_below:
  assumes "n \<le> length h" and "monopolar_amplitudes_in refs a_traces pk chan_inds h = Inr (a, h')"
  shows "same_below n h h'"
  using assms
  by (auto simp: monopolar_amplitudes_in_def Let_def new_def bindE_eq_Inr same_below_def
      enforce_decrease_shells_ptp_in_place_def split: option.splits)

lemma monopolar_turn_same_below:
  assumes "n \<le> a_out" and "n \<le> length h"
    and "monopolar_turn solve refs a_traces a_peaks a_out i h = Inr h'"
  shows "same_below n h h'"
proof -
  from assms(3) obtain chan_mask locs a h3 loc where
    amp: "monopolar_amplitudes_in refs a_traces (the_peaks (h ! a_peaks) ! i) (nonzero chan_mask)
        (h @ [Ints (nonzero chan_mask), Floats2 locs]) = Inr (a, h3)"
    and h': "h' = h3[a_out := RecordsXYZA ((the_xyza (h3 ! a_out))[i := loc])]"
    by (auto simp: monopolar_turn_def Let_def new_def bindE_eq_Inr)
  from assms(2) have "n \<le> length (h @ [Ints (nonzero chan_mask), Floats2 locs])" by simp
  from monopolar_amplitudes_in_same_below [OF this amp]
  show ?thesis using assms(1,2) by (simp add: same_below_def h')
qed

section \<open>The strategies on the store compute the same records\<close>

lemma for_each_mapE:
  assumes ok: "\<And>i h loc. good h \<Longrightarrow> f i = Inr loc \<Longrightarrow>
        \<exists>h'. turn i h = Inr h' \<and> good h' \<and> cell h' = (cell h)[i := loc]"
    and only: "\<And>i h h'. good h \<Longrightarrow> turn i h = Inr h' \<Longrightarrow> \<exists>loc. f i = Inr loc"
    and "good h"
  shows "(\<forall>locs. mapE f js = Inr locs \<longrightarrow>
            (\<exists>h'. for_each turn js h = Inr h' \<and> good h' \<and>
               cell h' = fold (\<lambda>(i, loc) out. out[i := loc]) (zip js locs) (cell h)))
       \<and> (\<forall>h'. for_each turn js h = Inr h' \<longrightarrow> (\<exists>locs. mapE f js = Inr locs))"
  using assms(3)
proof (induction js arbitrary: h)
  case Nil
  then show ?case by simp
next
  case (Cons i js)
  show ?case
  proof (cases "f i")
    case (Inl e)
    with only [OF Cons.prems, of i] show ?thesis
      by (auto simp: bindE_eq_Inr)
  next
    case (Inr loc)
    from ok [OF Cons.prems Inr] obtain h1 where
      h1: "turn i h = Inr h1" "good h1" "cell h1 = (cell h)[i := loc]"
      by blast
    from Cons.IH [OF h1(2)] show ?thesis
      using Inr h1(1,3) by (auto simp: bindE_eq_Inr)
  qed
qed

lemma fold_update_upt:
  "k + length locs \<le> length out \<Longrightarrow>
   fold (\<lambda>(i, loc) out. out[i := loc]) (zip [k..<k + length locs] locs) out =
     take k out @ locs @ drop (k + length locs) out"
proof (induction locs arbitrary: k out)
  case Nil
  then show ?case by simp
next
  case (Cons loc locs)
  have upt: "[k..<k + length (loc # locs)] = k # [Suc k..<Suc k + length locs]"
    using upt_conv_Cons [of k "k + length (loc # locs)"] by simp
  have "take (Suc k) (out[k := loc]) = take k out @ [loc]"
    using Cons.prems by (simp add: take_Suc_conv_app_nth)
  with Cons.IH [of "Suc k" "out[k := loc]"] Cons.prems show ?case
    unfolding upt by simp
qed

lemma mapE_nth_upt: "mapE (\<lambda>i. f (as ! i)) [0..<length as] = mapE f as"
proof -
  have "mapE (\<lambda>i. f (as ! i)) [k..<length as] = mapE f (drop k as)" for k
  proof (induction "length as - k" arbitrary: k)
    case 0
    then show ?case by simp
  next
    case (Suc d)
    then have k: "k < length as" by simp
    with Suc(1) [of "Suc k"] Suc(2) show ?case
      by (simp add: upt_conv_Cons Cons_nth_drop_Suc [symmetric])
  qed
  from this [of 0] show ?thesis by simp
qed

lemma take_nth_same: "take n h = h0 \<Longrightarrow> a < length h0 \<Longrightarrow> h ! a = h0 ! a"
  by (metis length_take min_less_iff_conj nth_take)

text \<open>
  Claim C9. Whenever one of the three strategies returns, the array of records
  it returns is a new object, and every object that was in the store before the
  call (the trace buffer, the peaks, the snippets, the contact locations, the
  neighbour mask, the radial parents) is the same after it. The amplitude
  vector that the enforcer updates in place is an object made during the call.
\<close>

theorem compute_buffer_keeps_inputs:
  "(peak_channel_compute_buffer_in prefs a_traces a_peaks h = Inr (a_out, h') \<longrightarrow>
      a_out = length h \<and> length h < length h' \<and> take (length h) h' = h)
   \<and> (com_compute_buffer_in crefs a_traces a_peaks a_waveforms h = Inr (a_out, h') \<longrightarrow>
      a_out = length h \<and> length h < length h' \<and> take (length h) h' = h)
   \<and> (monopolar_compute_buffer_in solve mrefs a_traces a_peaks h = Inr (a_out, h') \<longrightarrow>
      a_out = length h \<and> length h < length h' \<and> take (length h) h' = h)"
proof (intro conjI impI)
  assume run: "peak_channel_compute_buffer_in prefs a_traces a_peaks h = Inr (a_out, h')"
  define h1 where "h1 = h @ [RecordsXY (zeros_xy (length (the_peaks (h ! a_peaks))))]"
  from run have a: "a_out = length h"
    and loop: "for_each (peak_channel_turn prefs a_peaks (length h)) [0..<length (the_peaks (h ! a_peaks))] h1 = Inr h'"
    by (auto simp: peak_channel_compute_buffer_in_def Let_def new_def bindE_eq_Inr h1_def)
  have "same_below (length h) h1 h'"
    by (rule for_each_same_below [OF _ _ loop]) (auto intro: peak_channel_turn_same_below simp: h1_def)
  then show "a_out = length h" "length h < length h'" "take (length h) h' = h"
    using a by (simp_all add: same_below_def h1_def)
next
  assume run: "com_compute_buffer_in crefs a_traces a_peaks a_waveforms h = Inr (a_out, h')"
  define h2 where "h2 = h @ [RecordsXY (zeros_xy (length (the_peaks (h ! a_peaks)))),
      IntValues (unique (map channel_ind (the_peaks (h ! a_peaks))))]"
  from run have a: "a_out = length h"
    and loop: "for_each (com_turn crefs a_peaks a_waveforms (length h))
        (unique (map channel_ind (the_peaks (h ! a_peaks)))) h2 = Inr h'"
    by (auto simp: com_compute_buffer_in_def Let_def new_def bindE_eq_Inr h2_def)
  have "same_below (length h) h2 h'"
    by (rule for_each_same_below [OF _ _ loop]) (auto intro: com_turn_same_below simp: h2_def)
  then show "a_out = length h" "length h < length h'" "take (length h) h' = h"
    using a by (simp_all add: same_below_def h2_def)
next
  assume run: "monopolar_compute_buffer_in solve mrefs a_traces a_peaks h = Inr (a_out, h')"
  define h1 where "h1 = h @ [RecordsXYZA (zeros_xyza (length (the_peaks (h ! a_peaks))))]"
  from run have a: "a_out = length h"
    and loop: "for_each (monopolar_turn solve mrefs a_traces a_peaks (length h))
        [0..<length (the_peaks (h ! a_peaks))] h1 = Inr h'"
    by (auto simp: monopolar_compute_buffer_in_def Let_def new_def bindE_eq_Inr h1_def)
  have "same_below (length h) h1 h'"
    by (rule for_each_same_below [OF _ _ loop]) (auto intro: monopolar_turn_same_below simp: h1_def)
  then show "a_out = length h" "length h < length h'" "take (length h) h' = h"
    using a by (simp_all add: same_below_def h1_def)
qed

lemmas store_eval = Let_def new_def example_store_def example_refs_def example_com_refs_def
  the_peaks_def the_floats1_def the_floats2_def the_floats3_def the_bools2_def the_parents_def
  the_xy_def the_xyza_def probe2_def peak_at_def traces4_def two_shells_def

lemma example_monopolar_run:
  "\<exists>h'. monopolar_compute_buffer_in example_solve example_refs 3 4 example_store = Inr (6, h') \<and>
      h' ! 6 = RecordsXYZA [(Fin 3, Fin 2, Fin 1000, Fin 0), (Fin 2, Fin 2, Fin 1000, Fin 0)]"
  by (simp add: monopolar_compute_buffer_in_def monopolar_turn_def monopolar_amplitudes_in_def
      monopolar_step_in_def enforce_decrease_shells_ptp_in_place_def enforce_decrease_shells_ptp_def
      clamp_shell_def zeros_xyza_def example_solve_def store_eval
      monopolar_window_def slice_rows_def slice_def slice_bound_def take_columns_def take_rows_def
      ptp_axis0_def ptp_def column_def in_axis_def nonzero_def getitem_def norm_index_def)

lemma example_peak_channel_run:
  "\<exists>h'. peak_channel_compute_buffer_in example_refs 3 4 example_store = Inr (6, h') \<and>
      h' ! 6 = RecordsXY [(Fin 20, Fin 0), (Fin 20, Fin 0)]"
  by (simp add: peak_channel_compute_buffer_in_def peak_channel_turn_def pipeline_step_in_def
      peak_channel_body_def zeros_xy_def store_eval getitem_def norm_index_def)

lemma example_com_run:
  "\<exists>h'. com_compute_buffer_in example_com_refs 3 4 5 example_store = Inr (6, h') \<and>
      h' ! 6 = RecordsXY [(Fin 15, Fin 0), (Fin (20 / 3), Fin 0)]"
  by (simp add: com_compute_buffer_in_def com_turn_def com_step_in_def zeros_xy_def store_eval
      unique_def nonzero_def getitem_def norm_index_def take_rows_def in_axis_def com_wf_data_def
      take_waveforms_def take_chans_def ptp_axis1_def ptp_def column_def com_row_def dot_row_def
      fsum_def coms_column_def assign_x_def assign_y_def)

theorem compute_buffer_keeps_inputs_witness:
  "(\<exists>h'. peak_channel_compute_buffer_in example_refs 3 4 example_store = Inr (6, h') \<and>
      take 6 h' = example_store \<and> h' ! 6 = RecordsXY [(Fin 20, Fin 0), (Fin 20, Fin 0)])
   \<and> (\<exists>h'. com_compute_buffer_in example_com_refs 3 4 5 example_store = Inr (6, h') \<and>
      take 6 h' = example_store \<and> h' ! 6 = RecordsXY [(Fin 15, Fin 0), (Fin (20 / 3), Fin 0)])
   \<and> (\<exists>h'. monopolar_compute_buffer_in example_solve example_refs 3 4 example_store = Inr (6, h') \<and>
      take 6 h' = example_store \<and>
      h' ! 6 = RecordsXYZA [(Fin 3, Fin 2, Fin 1000, Fin 0), (Fin 2, Fin 2, Fin 1000, Fin 0)])"
proof -
  have len: "length example_store = 6" by (simp add: example_store_def)
  from example_peak_channel_run obtain hp where
    p: "peak_channel_compute_buffer_in example_refs 3 4 example_store = Inr (6, hp)"
      "hp ! 6 = RecordsXY [(Fin 20, Fin 0), (Fin 20, Fin 0)]"
    by blast
  from example_com_run obtain hc where
    c: "com_compute_buffer_in example_com_refs 3 4 5 example_store = Inr (6, hc)"
      "hc ! 6 = RecordsXY [(Fin 15, Fin 0), (Fin (20 / 3), Fin 0)]"
    by blast
  from example_monopolar_run obtain hm where
    m: "monopolar_compute_buffer_in example_solve example_refs 3 4 example_store = Inr (6, hm)"
      "hm ! 6 = RecordsXYZA [(Fin 3, Fin 2, Fin 1000, Fin 0), (Fin 2, Fin 2, Fin 1000, Fin 0)]"
    by blast
  have "take 6 hp = example_store"
    using compute_buffer_keeps_inputs [THEN conjunct1, rule_format, OF p(1)] by (simp add: len)
  moreover have "take 6 hc = example_store"
    using compute_buffer_keeps_inputs [THEN conjunct2, THEN conjunct1, rule_format, OF c(1)]
    by (simp add: len)
  moreover have "take 6 hm = example_store"
    using compute_buffer_keeps_inputs [THEN conjunct2, THEN conjunct2, rule_format, OF m(1)]
    by (simp add: len)
  ultimately show ?thesis using p c m by blast
qed

lemma take_length_le:
  assumes "take (length h0) h = h0"
  shows "length h0 \<le> length h"
  using arg_cong [OF assms, of length] by simp

lemma monopolar_window_in:
  "monopolar_window (monopolar_step_in h refs) traces pk = monopolar_window (monopolar_step_in h0 refs) traces pk"
  by (simp add: monopolar_window_def monopolar_step_in_def)

lemma monopolar_amplitudes_in_run:
  assumes good: "take (length h0) h = h0"
    and addrs: "a_traces < length h0" "\<forall>a. radial_parents_at refs = Some a \<longrightarrow> a < length h0"
    and run: "monopolar_amplitudes (monopolar_step_in h0 refs) (the_floats2 (h0 ! a_traces)) pk cs = Inr amps"
  shows "\<exists>a h'. monopolar_amplitudes_in refs a_traces pk cs h = Inr (a, h') \<and>
      length h \<le> a \<and> a < length h' \<and> take (length h) h' = h \<and> the_floats1 (h' ! a) = amps"
proof -
  have tr: "h ! a_traces = h0 ! a_traces"
    using good addrs(1) by (rule take_nth_same)
  from run obtain wf wf_ptp where
    wf: "take_columns (monopolar_window (monopolar_step_in h0 refs) (the_floats2 (h0 ! a_traces)) pk) cs = Inr wf"
    and wf_ptp: "ptp_axis0 wf = Inr wf_ptp"
    and enf: "(case enforce_decrease_radial_parents (monopolar_step_in h0 refs) of
         None \<Rightarrow> Inr wf_ptp
       | Some rp \<Rightarrow> enforce_decrease_shells_ptp wf_ptp (channel_ind pk) rp) = Inr amps"
    unfolding monopolar_amplitudes_def bindE_eq_Inr by blast
  have start: "monopolar_amplitudes_in refs a_traces pk cs h =
      (case radial_parents_at refs of
         None \<Rightarrow> Inr (Suc (length h), h @ [Floats2 wf, Floats1 wf_ptp])
       | Some a_parents \<Rightarrow>
           bindE (enforce_decrease_shells_ptp_in_place (Suc (length h)) (channel_ind pk)
                  (the_parents ((h @ [Floats2 wf, Floats1 wf_ptp]) ! a_parents))
                  (h @ [Floats2 wf, Floats1 wf_ptp]))
             (\<lambda>h3. Inr (Suc (length h), h3)))"
    by (simp add: monopolar_amplitudes_in_def monopolar_window_in [of h refs _ _ h0] tr wf wf_ptp
        Let_def new_def split: option.split)
  show ?thesis
  proof (cases "radial_parents_at refs")
    case None
    with enf have "amps = wf_ptp" by (simp add: monopolar_step_in_def)
    with None show ?thesis
      by (simp add: start the_floats1_def nth_append)
  next
    case (Some a_parents)
    with addrs(2) have "a_parents < length h0" by simp
    with good take_length_le [OF good] have a: "a_parents < length h" "h ! a_parents = h0 ! a_parents"
      by (auto intro: take_nth_same)
    from enf Some have e: "enforce_decrease_shells_ptp wf_ptp (channel_ind pk) (the_parents (h0 ! a_parents)) = Inr amps"
      by (simp add: monopolar_step_in_def)
    show ?thesis
      using Some a e
      by (simp add: start enforce_decrease_shells_ptp_in_place_def nth_append the_floats1_def)
  qed
qed

lemma monopolar_amplitudes_in_only:
  assumes good: "take (length h0) h = h0"
    and addrs: "a_traces < length h0" "\<forall>a. radial_parents_at refs = Some a \<longrightarrow> a < length h0"
    and run: "monopolar_amplitudes_in refs a_traces pk cs h = Inr (a, h')"
  shows "\<exists>amps. monopolar_amplitudes (monopolar_step_in h0 refs) (the_floats2 (h0 ! a_traces)) pk cs = Inr amps"
proof -
  have tr: "h ! a_traces = h0 ! a_traces"
    using good addrs(1) by (rule take_nth_same)
  from run obtain wf where
    wf: "take_columns (monopolar_window (monopolar_step_in h0 refs) (the_floats2 (h0 ! a_traces)) pk) cs = Inr wf"
    and rest: "(let (a_wf, h1) = new (Floats2 wf) h in
     bindE (ptp_axis0 wf) (\<lambda>wf_ptp.
     let (a_wf_ptp, h2) = new (Floats1 wf_ptp) h1 in
     case radial_parents_at refs of
       None \<Rightarrow> Inr (a_wf_ptp, h2)
     | Some a_parents \<Rightarrow>
         bindE (enforce_decrease_shells_ptp_in_place a_wf_ptp (channel_ind pk)
                  (the_parents (h2 ! a_parents)) h2)
           (\<lambda>h3. Inr (a_wf_ptp, h3)))) = Inr (a, h')"
    unfolding monopolar_amplitudes_in_def bindE_eq_Inr monopolar_window_in [of h refs _ _ h0] tr
    by blast
  from rest obtain wf_ptp where wf_ptp: "ptp_axis0 wf = Inr wf_ptp"
    and enf: "(case radial_parents_at refs of
       None \<Rightarrow> Inr (Suc (length h), h @ [Floats2 wf, Floats1 wf_ptp])
     | Some a_parents \<Rightarrow>
         bindE (enforce_decrease_shells_ptp_in_place (Suc (length h)) (channel_ind pk)
                  (the_parents ((h @ [Floats2 wf, Floats1 wf_ptp]) ! a_parents))
                  (h @ [Floats2 wf, Floats1 wf_ptp]))
           (\<lambda>h3. Inr (Suc (length h), h3))) = Inr (a, h')"
    by (auto simp: Let_def new_def bindE_eq_Inr split: option.splits)
  show ?thesis
  proof (cases "radial_parents_at refs")
    case None
    then have "enforce_decrease_radial_parents (monopolar_step_in h0 refs) = None"
      by (simp add: monopolar_step_in_def)
    then show ?thesis
      by (simp add: monopolar_amplitudes_def wf wf_ptp)
  next
    case (Some a_parents)
    with addrs(2) have "a_parents < length h0" by simp
    with good take_length_le [OF good] have a: "a_parents < length h" "h ! a_parents = h0 ! a_parents"
      by (auto intro: take_nth_same)
    from enf Some a obtain amps where
      "enforce_decrease_shells_ptp wf_ptp (channel_ind pk) (the_parents (h0 ! a_parents)) = Inr amps"
      by (auto simp: enforce_decrease_shells_ptp_in_place_def bindE_eq_Inr nth_append the_floats1_def)
    moreover from Some have "enforce_decrease_radial_parents (monopolar_step_in h0 refs) =
        Some (the_parents (h0 ! a_parents))"
      by (simp add: monopolar_step_in_def)
    ultimately show ?thesis
      by (simp add: monopolar_amplitudes_def wf wf_ptp)
  qed
qed

lemma monopolar_step_in_same:
  assumes good: "take (length h0) h = h0"
    and addrs: "contact_locations_at refs < length h0" "neighbours_mask_at refs < length h0"
      "\<forall>a. radial_parents_at refs = Some a \<longrightarrow> a < length h0"
  shows "monopolar_step_in h refs = monopolar_step_in h0 refs"
proof -
  have "h ! contact_locations_at refs = h0 ! contact_locations_at refs"
    "h ! neighbours_mask_at refs = h0 ! neighbours_mask_at refs"
    using good addrs(1,2) by (auto intro: take_nth_same)
  moreover have "h ! a = h0 ! a" if "radial_parents_at refs = Some a" for a
    using that good addrs(3) by (auto intro: take_nth_same)
  ultimately show ?thesis
    by (cases "radial_parents_at refs") (simp_all add: monopolar_step_in_def)
qed

lemma monopolar_turn_run:
  assumes good: "take (length h0) h = h0" "length h0 < length h"
    and addrs: "a_traces < length h0" "a_peaks < length h0"
      "contact_locations_at refs < length h0" "neighbours_mask_at refs < length h0"
      "\<forall>a. radial_parents_at refs = Some a \<longrightarrow> a < length h0"
    and run: "monopolar_body solve (monopolar_step_in h0 refs) (the_floats2 (h0 ! a_traces))
                (the_peaks (h0 ! a_peaks) ! i) = Inr loc"
  shows "\<exists>h'. monopolar_turn solve refs a_traces a_peaks (length h0) i h = Inr h' \<and>
      (take (length h0) h' = h0 \<and> length h0 < length h') \<and>
      the_xyza (h' ! length h0) = (the_xyza (h ! length h0))[i := loc]"
proof -
  define pk where "pk = the_peaks (h0 ! a_peaks) ! i"
  have step: "monopolar_step_in h refs = monopolar_step_in h0 refs"
    using good(1) addrs(3-5) by (rule monopolar_step_in_same)
  have pk: "the_peaks (h ! a_peaks) ! i = pk"
    using take_nth_same [OF good(1) addrs(2)] by (simp add: pk_def)
  from run obtain chan_mask locs amps where
    m: "getitem (neighbours_mask (monopolar_step_in h0 refs)) (channel_ind pk) = Inr chan_mask"
    and l: "take_rows (contact_locations (monopolar_step_in h0 refs)) (nonzero chan_mask) = Inr locs"
    and a: "monopolar_amplitudes (monopolar_step_in h0 refs) (the_floats2 (h0 ! a_traces)) pk
        (nonzero chan_mask) = Inr amps"
    and s: "solve amps locs (max_distance_um (monopolar_step_in h0 refs))
        (optimizer (monopolar_step_in h0 refs)) = Inr loc"
    unfolding monopolar_body_def bindE_eq_Inr Let_def pk_def by blast
  define h2 where "h2 = h @ [Ints (nonzero chan_mask), Floats2 locs]"
  have good2: "take (length h0) h2 = h0"
    using good by (simp add: h2_def)
  from monopolar_amplitudes_in_run [OF good2 addrs(1,5) a] obtain a_ptp h3 where
    run3: "monopolar_amplitudes_in refs a_traces pk (nonzero chan_mask) h2 = Inr (a_ptp, h3)"
    and a_ptp: "length h2 \<le> a_ptp" "a_ptp < length h3"
    and keep: "take (length h2) h3 = h2" and val: "the_floats1 (h3 ! a_ptp) = amps"
    by blast
  have len3: "length h2 \<le> length h3" using keep by (rule take_length_le)
  have out3: "h3 ! length h0 = h ! length h0"
  proof -
    have "h3 ! length h0 = h2 ! length h0"
      using keep good(2) by (intro take_nth_same) (simp_all add: h2_def)
    then show ?thesis using good(2) by (simp add: h2_def nth_append)
  qed
  have take3: "take (length h0) h3 = h0"
  proof -
    have "take (length h0) h3 = take (length h0) (take (length h2) h3)"
      using good(2) by (simp add: h2_def min_def)
    then show ?thesis using keep good2 by simp
  qed
  have "monopolar_turn solve refs a_traces a_peaks (length h0) i h =
      Inr (h3[length h0 := RecordsXYZA ((the_xyza (h3 ! length h0))[i := loc])])"
    by (simp add: monopolar_turn_def step pk m l Let_def new_def run3 [unfolded h2_def] val s)
  moreover have "length h0 < length h3"
    using len3 good(2) by (simp add: h2_def)
  ultimately show ?thesis
    using take3 by (simp add: out3 the_xyza_def)
qed

lemma monopolar_turn_only:
  assumes good: "take (length h0) h = h0" "length h0 < length h"
    and addrs: "a_traces < length h0" "a_peaks < length h0"
      "contact_locations_at refs < length h0" "neighbours_mask_at refs < length h0"
      "\<forall>a. radial_parents_at refs = Some a \<longrightarrow> a < length h0"
    and run: "monopolar_turn solve refs a_traces a_peaks (length h0) i h = Inr h'"
  shows "\<exists>loc. monopolar_body solve (monopolar_step_in h0 refs) (the_floats2 (h0 ! a_traces))
                (the_peaks (h0 ! a_peaks) ! i) = Inr loc"
proof -
  define pk where "pk = the_peaks (h0 ! a_peaks) ! i"
  have step: "monopolar_step_in h refs = monopolar_step_in h0 refs"
    using good(1) addrs(3-5) by (rule monopolar_step_in_same)
  have pk: "the_peaks (h ! a_peaks) ! i = pk"
    using take_nth_same [OF good(1) addrs(2)] by (simp add: pk_def)
  from run obtain chan_mask locs a_ptp h3 loc where
    m: "getitem (neighbours_mask (monopolar_step_in h0 refs)) (channel_ind pk) = Inr chan_mask"
    and l: "take_rows (contact_locations (monopolar_step_in h0 refs)) (nonzero chan_mask) = Inr locs"
    and run3: "monopolar_amplitudes_in refs a_traces pk (nonzero chan_mask)
        (h @ [Ints (nonzero chan_mask), Floats2 locs]) = Inr (a_ptp, h3)"
    and s: "solve (the_floats1 (h3 ! a_ptp)) locs (max_distance_um (monopolar_step_in h0 refs))
        (optimizer (monopolar_step_in h0 refs)) = Inr loc"
    unfolding monopolar_turn_def step pk Let_def new_def
    by (auto simp: bindE_eq_Inr)
  define h2 where "h2 = h @ [Ints (nonzero chan_mask), Floats2 locs]"
  have good2: "take (length h0) h2 = h0"
    using good by (simp add: h2_def)
  from monopolar_amplitudes_in_only [OF good2 addrs(1,5) run3 [folded h2_def]] obtain amps where
    a: "monopolar_amplitudes (monopolar_step_in h0 refs) (the_floats2 (h0 ! a_traces)) pk
        (nonzero chan_mask) = Inr amps"
    by blast
  from monopolar_amplitudes_in_run [OF good2 addrs(1,5) a] run3 [folded h2_def]
  have "the_floats1 (h3 ! a_ptp) = amps" by auto
  with s have "solve amps locs (max_distance_um (monopolar_step_in h0 refs))
        (optimizer (monopolar_step_in h0 refs)) = Inr loc" by simp
  then have "monopolar_body solve (monopolar_step_in h0 refs) (the_floats2 (h0 ! a_traces)) pk = Inr loc"
    by (simp add: monopolar_body_def Let_def m l a)
  then show ?thesis unfolding pk_def by (rule exI)
qed

text \<open>
  On a store that holds the arrays of the step, the traces and the peaks, the
  strategy on the store returns exactly when the strategy on values does, and
  the array it returns holds the same records.
\<close>

lemma monopolar_store_refines:
  assumes addrs: "a_traces < length h" "a_peaks < length h"
      "contact_locations_at refs < length h" "neighbours_mask_at refs < length h"
      "\<forall>a. radial_parents_at refs = Some a \<longrightarrow> a < length h"
  shows "(\<forall>out. monopolar_compute_buffer solve (monopolar_step_in h refs) (the_floats2 (h ! a_traces))
              (the_peaks (h ! a_peaks)) = Inr out \<longrightarrow>
            (\<exists>h'. monopolar_compute_buffer_in solve refs a_traces a_peaks h = Inr (length h, h') \<and>
                the_xyza (h' ! length h) = out))
       \<and> (\<forall>a h'. monopolar_compute_buffer_in solve refs a_traces a_peaks h = Inr (a, h') \<longrightarrow>
            monopolar_compute_buffer solve (monopolar_step_in h refs) (the_floats2 (h ! a_traces))
              (the_peaks (h ! a_peaks)) = Inr (the_xyza (h' ! a)))"
proof -
  define peaks where "peaks = the_peaks (h ! a_peaks)"
  define h1 where "h1 = h @ [RecordsXYZA (zeros_xyza (length peaks))]"
  define f where "f = (\<lambda>i. monopolar_body solve (monopolar_step_in h refs) (the_floats2 (h ! a_traces)) (peaks ! i))"
  define good where "good = (\<lambda>s. take (length h) s = h \<and> length h < length s)"
  have good1: "good h1" by (simp add: good_def h1_def)
  have cell1: "the_xyza (h1 ! length h) = zeros_xyza (length peaks)"
    by (simp add: h1_def the_xyza_def)
  have pure: "monopolar_compute_buffer solve (monopolar_step_in h refs) (the_floats2 (h ! a_traces)) peaks
      = mapE f [0..<length peaks]"
    unfolding f_def by (simp add: monopolar_compute_buffer_mapE mapE_nth_upt)
  have store: "monopolar_compute_buffer_in solve refs a_traces a_peaks h =
      bindE (for_each (monopolar_turn solve refs a_traces a_peaks (length h)) [0..<length peaks] h1)
        (\<lambda>h'. Inr (length h, h'))"
    by (simp add: monopolar_compute_buffer_in_def Let_def new_def peaks_def h1_def)
  have ok: "\<exists>h'. monopolar_turn solve refs a_traces a_peaks (length h) i s = Inr h' \<and> good h' \<and>
      the_xyza (h' ! length h) = (the_xyza (s ! length h))[i := loc]"
    if "good s" "f i = Inr loc" for i s loc
  proof -
    from that(1) have g: "take (length h) s = h" "length h < length s"
      by (simp_all add: good_def)
    from monopolar_turn_run [OF g addrs that(2) [unfolded f_def peaks_def]]
    show ?thesis unfolding good_def .
  qed
  have only: "\<exists>loc. f i = Inr loc"
    if "good s" "monopolar_turn solve refs a_traces a_peaks (length h) i s = Inr h'" for i s h'
  proof -
    from that(1) have g: "take (length h) s = h" "length h < length s"
      by (simp_all add: good_def)
    from monopolar_turn_only [OF g addrs that(2)]
    show ?thesis unfolding f_def peaks_def .
  qed
  have link: "(\<forall>locs. mapE f [0..<length peaks] = Inr locs \<longrightarrow>
            (\<exists>h'. for_each (monopolar_turn solve refs a_traces a_peaks (length h)) [0..<length peaks] h1 = Inr h' \<and>
               good h' \<and>
               the_xyza (h' ! length h) = fold (\<lambda>(i, loc) out. out[i := loc]) (zip [0..<length peaks] locs)
                 (the_xyza (h1 ! length h))))
       \<and> (\<forall>h'. for_each (monopolar_turn solve refs a_traces a_peaks (length h)) [0..<length peaks] h1 = Inr h' \<longrightarrow>
            (\<exists>locs. mapE f [0..<length peaks] = Inr locs))"
  proof (rule for_each_mapE [where good = good and cell = "\<lambda>s. the_xyza (s ! length h)"])
    fix i s loc assume "good s" "f i = Inr loc"
    then show "\<exists>h'. monopolar_turn solve refs a_traces a_peaks (length h) i s = Inr h' \<and> good h' \<and>
      the_xyza (h' ! length h) = (the_xyza (s ! length h))[i := loc]"
      by (rule ok)
  next
    fix i s h' assume "good s" "monopolar_turn solve refs a_traces a_peaks (length h) i s = Inr h'"
    then show "\<exists>loc. f i = Inr loc" by (rule only)
  next
    show "good h1" by (rule good1)
  qed
  have link1: "\<exists>h'. for_each (monopolar_turn solve refs a_traces a_peaks (length h)) [0..<length peaks] h1 = Inr h' \<and>
      good h' \<and> the_xyza (h' ! length h) = fold (\<lambda>(i, loc) out. out[i := loc]) (zip [0..<length peaks] locs)
        (the_xyza (h1 ! length h))" if "mapE f [0..<length peaks] = Inr locs" for locs
    using that link [THEN conjunct1] by blast
  have link2: "\<exists>locs. mapE f [0..<length peaks] = Inr locs"
    if "for_each (monopolar_turn solve refs a_traces a_peaks (length h)) [0..<length peaks] h1 = Inr h'" for h'
    using that link [THEN conjunct2] by blast
  have filled: "fold (\<lambda>(i, loc) out. out[i := loc]) (zip [0..<length peaks] locs) (zeros_xyza (length peaks)) = locs"
    if "mapE f [0..<length peaks] = Inr locs" for locs
  proof -
    from that have len: "length locs = length peaks" by (simp add: mapE_eq_Inr)
    from fold_update_upt [of 0 locs "zeros_xyza (length peaks)"] len show ?thesis
      by (simp add: zeros_xyza_def)
  qed
  have forward: "\<exists>h'. monopolar_compute_buffer_in solve refs a_traces a_peaks h = Inr (length h, h') \<and>
                the_xyza (h' ! length h) = out"
    if "monopolar_compute_buffer solve (monopolar_step_in h refs) (the_floats2 (h ! a_traces)) peaks = Inr out"
    for out
    using link1 [of out] filled [of out] that by (auto simp: pure store cell1)
  have backward: "monopolar_compute_buffer solve (monopolar_step_in h refs) (the_floats2 (h ! a_traces)) peaks
      = Inr (the_xyza (h' ! a))"
    if "monopolar_compute_buffer_in solve refs a_traces a_peaks h = Inr (a, h')" for a h'
  proof -
    from that have "bindE (for_each (monopolar_turn solve refs a_traces a_peaks (length h)) [0..<length peaks] h1)
        (\<lambda>h'. Inr (length h, h')) = Inr (a, h')"
      by (simp only: store)
    then have loop: "for_each (monopolar_turn solve refs a_traces a_peaks (length h)) [0..<length peaks] h1 = Inr h'"
      and a: "a = length h"
      unfolding bindE_eq_Inr by auto
    from link2 [OF loop] obtain locs where locs: "mapE f [0..<length peaks] = Inr locs" by blast
    from link1 [OF locs] loop filled [OF locs] have "the_xyza (h' ! length h) = locs"
      by (auto simp: cell1)
    with locs a show ?thesis by (simp add: pure)
  qed
  from forward backward show ?thesis
    unfolding peaks_def by blast
qed

lemma pipeline_step_in_same:
  assumes good: "take (length h0) h = h0"
    and addrs: "contact_locations_at refs < length h0" "neighbours_mask_at refs < length h0"
  shows "pipeline_step_in h refs = pipeline_step_in h0 refs"
proof -
  have "h ! contact_locations_at refs = h0 ! contact_locations_at refs"
    "h ! neighbours_mask_at refs = h0 ! neighbours_mask_at refs"
    using good addrs by (auto intro: take_nth_same)
  then show ?thesis by (simp add: pipeline_step_in_def)
qed

lemma peak_channel_turn_run:
  assumes good: "take (length h0) h = h0" "length h0 < length h"
    and addrs: "a_peaks < length h0"
      "contact_locations_at refs < length h0" "neighbours_mask_at refs < length h0"
    and run: "peak_channel_body (pipeline_step_in h0 refs) (channel_ind (the_peaks (h0 ! a_peaks) ! i)) = Inr loc"
  shows "\<exists>h'. peak_channel_turn refs a_peaks (length h0) i h = Inr h' \<and>
      (take (length h0) h' = h0 \<and> length h0 < length h') \<and>
      the_xy (h' ! length h0) = (the_xy (h ! length h0))[i := loc]"
proof -
  have step: "pipeline_step_in h refs = pipeline_step_in h0 refs"
    using good(1) addrs(2,3) by (rule pipeline_step_in_same)
  have pk: "h ! a_peaks = h0 ! a_peaks"
    using good(1) addrs(1) by (rule take_nth_same)
  have "peak_channel_turn refs a_peaks (length h0) i h =
      Inr (h[length h0 := RecordsXY ((the_xy (h ! length h0))[i := loc])])"
    by (simp add: peak_channel_turn_def step pk run)
  then show ?thesis
    using good by (simp add: the_xy_def)
qed

lemma peak_channel_turn_only:
  assumes good: "take (length h0) h = h0" "length h0 < length h"
    and addrs: "a_peaks < length h0"
      "contact_locations_at refs < length h0" "neighbours_mask_at refs < length h0"
    and run: "peak_channel_turn refs a_peaks (length h0) i h = Inr h'"
  shows "\<exists>loc. peak_channel_body (pipeline_step_in h0 refs) (channel_ind (the_peaks (h0 ! a_peaks) ! i)) = Inr loc"
proof -
  have step: "pipeline_step_in h refs = pipeline_step_in h0 refs"
    using good(1) addrs(2,3) by (rule pipeline_step_in_same)
  have pk: "h ! a_peaks = h0 ! a_peaks"
    using good(1) addrs(1) by (rule take_nth_same)
  from run show ?thesis
    unfolding peak_channel_turn_def step pk bindE_eq_Inr by blast
qed

lemma mapE_map_comp: "mapE f (map g as) = mapE (\<lambda>a. f (g a)) as"
  by (induction as) simp_all

lemma peak_channel_store_refines:
  assumes addrs: "a_peaks < length h"
      "contact_locations_at refs < length h" "neighbours_mask_at refs < length h"
  shows "(\<forall>out. peak_channel_compute_buffer (pipeline_step_in h refs) traces (the_peaks (h ! a_peaks)) = Inr out \<longrightarrow>
            (\<exists>h'. peak_channel_compute_buffer_in refs a_traces a_peaks h = Inr (length h, h') \<and>
                the_xy (h' ! length h) = out))
       \<and> (\<forall>a h'. peak_channel_compute_buffer_in refs a_traces a_peaks h = Inr (a, h') \<longrightarrow>
            peak_channel_compute_buffer (pipeline_step_in h refs) traces (the_peaks (h ! a_peaks))
              = Inr (the_xy (h' ! a)))"
proof -
  define peaks where "peaks = the_peaks (h ! a_peaks)"
  define h1 where "h1 = h @ [RecordsXY (zeros_xy (length peaks))]"
  define f where "f = (\<lambda>i. peak_channel_body (pipeline_step_in h refs) (channel_ind (peaks ! i)))"
  define good where "good = (\<lambda>s. take (length h) s = h \<and> length h < length s)"
  have good1: "good h1" by (simp add: good_def h1_def)
  have cell1: "the_xy (h1 ! length h) = zeros_xy (length peaks)"
    by (simp add: h1_def the_xy_def)
  have pure: "peak_channel_compute_buffer (pipeline_step_in h refs) traces peaks = mapE f [0..<length peaks]"
    unfolding f_def
    by (simp add: peak_channel_compute_buffer_mapE mapE_map_comp
        mapE_nth_upt [where f = "\<lambda>p. peak_channel_body (pipeline_step_in h refs) (channel_ind p)"])
  have store: "peak_channel_compute_buffer_in refs a_traces a_peaks h =
      bindE (for_each (peak_channel_turn refs a_peaks (length h)) [0..<length peaks] h1)
        (\<lambda>h'. Inr (length h, h'))"
    by (simp add: peak_channel_compute_buffer_in_def Let_def new_def peaks_def h1_def)
  have ok: "\<exists>h'. peak_channel_turn refs a_peaks (length h) i s = Inr h' \<and> good h' \<and>
      the_xy (h' ! length h) = (the_xy (s ! length h))[i := loc]"
    if "good s" "f i = Inr loc" for i s loc
  proof -
    from that(1) have g: "take (length h) s = h" "length h < length s"
      by (simp_all add: good_def)
    from peak_channel_turn_run [OF g addrs that(2) [unfolded f_def peaks_def]]
    show ?thesis unfolding good_def .
  qed
  have only: "\<exists>loc. f i = Inr loc"
    if "good s" "peak_channel_turn refs a_peaks (length h) i s = Inr h'" for i s h'
  proof -
    from that(1) have g: "take (length h) s = h" "length h < length s"
      by (simp_all add: good_def)
    from peak_channel_turn_only [OF g addrs that(2)]
    show ?thesis unfolding f_def peaks_def .
  qed
  have link: "(\<forall>locs. mapE f [0..<length peaks] = Inr locs \<longrightarrow>
            (\<exists>h'. for_each (peak_channel_turn refs a_peaks (length h)) [0..<length peaks] h1 = Inr h' \<and>
               good h' \<and>
               the_xy (h' ! length h) = fold (\<lambda>(i, loc) out. out[i := loc]) (zip [0..<length peaks] locs)
                 (the_xy (h1 ! length h))))
       \<and> (\<forall>h'. for_each (peak_channel_turn refs a_peaks (length h)) [0..<length peaks] h1 = Inr h' \<longrightarrow>
            (\<exists>locs. mapE f [0..<length peaks] = Inr locs))"
  proof (rule for_each_mapE [where good = good and cell = "\<lambda>s. the_xy (s ! length h)"])
    fix i s loc assume "good s" "f i = Inr loc"
    then show "\<exists>h'. peak_channel_turn refs a_peaks (length h) i s = Inr h' \<and> good h' \<and>
      the_xy (h' ! length h) = (the_xy (s ! length h))[i := loc]"
      by (rule ok)
  next
    fix i s h' assume "good s" "peak_channel_turn refs a_peaks (length h) i s = Inr h'"
    then show "\<exists>loc. f i = Inr loc" by (rule only)
  next
    show "good h1" by (rule good1)
  qed
  have link1: "\<exists>h'. for_each (peak_channel_turn refs a_peaks (length h)) [0..<length peaks] h1 = Inr h' \<and>
      good h' \<and> the_xy (h' ! length h) = fold (\<lambda>(i, loc) out. out[i := loc]) (zip [0..<length peaks] locs)
        (the_xy (h1 ! length h))" if "mapE f [0..<length peaks] = Inr locs" for locs
    using that link [THEN conjunct1] by blast
  have link2: "\<exists>locs. mapE f [0..<length peaks] = Inr locs"
    if "for_each (peak_channel_turn refs a_peaks (length h)) [0..<length peaks] h1 = Inr h'" for h'
    using that link [THEN conjunct2] by blast
  have filled: "fold (\<lambda>(i, loc) out. out[i := loc]) (zip [0..<length peaks] locs) (zeros_xy (length peaks)) = locs"
    if "mapE f [0..<length peaks] = Inr locs" for locs
  proof -
    from that have len: "length locs = length peaks" by (simp add: mapE_eq_Inr)
    from fold_update_upt [of 0 locs "zeros_xy (length peaks)"] len show ?thesis
      by (simp add: zeros_xy_def)
  qed
  have forward: "\<exists>h'. peak_channel_compute_buffer_in refs a_traces a_peaks h = Inr (length h, h') \<and>
                the_xy (h' ! length h) = out"
    if "peak_channel_compute_buffer (pipeline_step_in h refs) traces peaks = Inr out"
    for out
    using link1 [of out] filled [of out] that by (auto simp: pure store cell1)
  have backward: "peak_channel_compute_buffer (pipeline_step_in h refs) traces peaks
      = Inr (the_xy (h' ! a))"
    if "peak_channel_compute_buffer_in refs a_traces a_peaks h = Inr (a, h')" for a h'
  proof -
    from that have "bindE (for_each (peak_channel_turn refs a_peaks (length h)) [0..<length peaks] h1)
        (\<lambda>h'. Inr (length h, h')) = Inr (a, h')"
      by (simp only: store)
    then have loop: "for_each (peak_channel_turn refs a_peaks (length h)) [0..<length peaks] h1 = Inr h'"
      and a: "a = length h"
      unfolding bindE_eq_Inr by auto
    from link2 [OF loop] obtain locs where locs: "mapE f [0..<length peaks] = Inr locs" by blast
    from link1 [OF locs] loop filled [OF locs] have "the_xy (h' ! length h) = locs"
      by (auto simp: cell1)
    with locs a show ?thesis by (simp add: pure)
  qed
  from forward backward show ?thesis
    unfolding peaks_def by blast
qed

lemma com_step_in_same:
  assumes good: "take (length h0) h = h0"
    and addrs: "contact_locations_at refs < length h0" "neighbours_mask_at refs < length h0"
  shows "com_step_in h refs = com_step_in h0 refs"
proof -
  have "h ! contact_locations_at refs = h0 ! contact_locations_at refs"
    "h ! neighbours_mask_at refs = h0 ! neighbours_mask_at refs"
    using good addrs by (auto intro: take_nth_same)
  then show ?thesis by (simp add: com_step_in_def)
qed

lemma com_turn_run:
  assumes good: "take (length h0) h = h0" "length h0 < length h"
    and addrs: "a_peaks < length h0" "a_waveforms < length h0"
      "contact_locations_at refs < length h0" "neighbours_mask_at refs < length h0"
    and run: "com_group (com_step_in h0 refs) (the_floats3 (h0 ! a_waveforms)) (the_peaks (h0 ! a_peaks))
        main_chan (the_xy (h ! length h0)) = Inr out'"
  shows "\<exists>h'. com_turn refs a_peaks a_waveforms (length h0) main_chan h = Inr h' \<and>
      (take (length h0) h' = h0 \<and> length h0 < length h') \<and> the_xy (h' ! length h0) = out'"
proof -
  define step where "step = com_step_in h0 refs"
  define idx where "idx = nonzero (map (\<lambda>p. channel_ind p = main_chan) (the_peaks (h0 ! a_peaks)))"
  have step_eq: "com_step_in h refs = step"
    unfolding step_def using good(1) addrs(3,4) by (rule com_step_in_same)
  have pk: "h ! a_peaks = h0 ! a_peaks"
    using good(1) addrs(1) by (rule take_nth_same)
  have wv: "h ! a_waveforms = h0 ! a_waveforms"
    using good(1) addrs(2) by (rule take_nth_same)
  have wlt: "a_waveforms < length h" using addrs(2) good(2) by simp
  from run obtain mask_row locs D xs ys where
    m: "getitem (neighbours_mask step) main_chan = Inr mask_row"
    and l: "take_rows (contact_locations step) (nonzero mask_row) = Inr locs"
    and d: "com_wf_data (feature step) (nbefore step) (the_floats3 (h0 ! a_waveforms)) idx (nonzero mask_row) = Inr D"
    and x: "coms_column (ncols locs) (map (com_row locs) D) 0 = Inr xs"
    and y: "coms_column (ncols locs) (map (com_row locs) D) 1 = Inr ys"
    and out': "out' = assign_y (assign_x (the_xy (h ! length h0)) idx xs) idx ys"
    unfolding com_group_def Let_def bindE_eq_Inr step_def idx_def by blast
  define h5 where "h5 = h @ [Ints idx, Ints (nonzero mask_row), Floats2 locs, Weights D,
      Weights (map (com_row locs) D)]"
  have "com_turn refs a_peaks a_waveforms (length h0) main_chan h =
      Inr (h5[length h0 := RecordsXY out'])"
    using good(2) wlt
    by (simp add: com_turn_def step_eq pk wv Let_def new_def m l d x y [unfolded One_nat_def] out' nth_append the_xy_def
        flip: idx_def h5_def)
  moreover have "take (length h0) (h5[length h0 := RecordsXY out']) = h0"
    using good by (simp add: h5_def)
  moreover have "length h0 < length (h5[length h0 := RecordsXY out'])"
    using good(2) by (simp add: h5_def)
  ultimately show ?thesis
    by (simp add: the_xy_def)
qed

lemma com_turn_only:
  assumes good: "take (length h0) h = h0" "length h0 < length h"
    and addrs: "a_peaks < length h0" "a_waveforms < length h0"
      "contact_locations_at refs < length h0" "neighbours_mask_at refs < length h0"
    and run: "com_turn refs a_peaks a_waveforms (length h0) main_chan h = Inr h'"
  shows "\<exists>out'. com_group (com_step_in h0 refs) (the_floats3 (h0 ! a_waveforms)) (the_peaks (h0 ! a_peaks))
        main_chan (the_xy (h ! length h0)) = Inr out'"
proof -
  define step where "step = com_step_in h0 refs"
  define idx where "idx = nonzero (map (\<lambda>p. channel_ind p = main_chan) (the_peaks (h0 ! a_peaks)))"
  have step_eq: "com_step_in h refs = step"
    unfolding step_def using good(1) addrs(3,4) by (rule com_step_in_same)
  have pk: "h ! a_peaks = h0 ! a_peaks"
    using good(1) addrs(1) by (rule take_nth_same)
  have wv: "h ! a_waveforms = h0 ! a_waveforms"
    using good(1) addrs(2) by (rule take_nth_same)
  have wlt: "a_waveforms < length h" using addrs(2) good(2) by simp
  from run obtain mask_row locs D xs ys where
    m: "getitem (neighbours_mask step) main_chan = Inr mask_row"
    and l: "take_rows (contact_locations step) (nonzero mask_row) = Inr locs"
    and d: "com_wf_data (feature step) (nbefore step) (the_floats3 (h0 ! a_waveforms)) idx (nonzero mask_row) = Inr D"
    and x: "coms_column (ncols locs) (map (com_row locs) D) 0 = Inr xs"
    and y: "coms_column (ncols locs) (map (com_row locs) D) 1 = Inr ys"
    using wlt
    unfolding com_turn_def step_eq pk Let_def new_def idx_def [symmetric]
    by (auto simp: bindE_eq_Inr nth_append wv)
  then show ?thesis
    by (simp add: com_group_def Let_def flip: step_def idx_def)
qed

lemma com_loop_store:
  assumes addrs: "a_peaks < length h0" "a_waveforms < length h0"
      "contact_locations_at refs < length h0" "neighbours_mask_at refs < length h0"
    and good: "take (length h0) h = h0" "length h0 < length h"
  shows "(\<forall>out'. com_loop (com_step_in h0 refs) (the_floats3 (h0 ! a_waveforms)) (the_peaks (h0 ! a_peaks))
              cs (the_xy (h ! length h0)) = Inr out' \<longrightarrow>
            (\<exists>h'. for_each (com_turn refs a_peaks a_waveforms (length h0)) cs h = Inr h' \<and>
                the_xy (h' ! length h0) = out'))
       \<and> (\<forall>h'. for_each (com_turn refs a_peaks a_waveforms (length h0)) cs h = Inr h' \<longrightarrow>
            (\<exists>out'. com_loop (com_step_in h0 refs) (the_floats3 (h0 ! a_waveforms)) (the_peaks (h0 ! a_peaks))
              cs (the_xy (h ! length h0)) = Inr out'))"
  using good
proof (induction cs arbitrary: h)
  case Nil
  then show ?case by simp
next
  case (Cons ch cs)
  show ?case
  proof (cases "com_group (com_step_in h0 refs) (the_floats3 (h0 ! a_waveforms)) (the_peaks (h0 ! a_peaks))
        ch (the_xy (h ! length h0))")
    case (Inl e)
    with com_turn_only [OF Cons.prems addrs, of ch] show ?thesis
      by (auto simp: bindE_eq_Inr)
  next
    case (Inr out1)
    from com_turn_run [OF Cons.prems addrs Inr] obtain h1 where
      h1: "com_turn refs a_peaks a_waveforms (length h0) ch h = Inr h1"
      and good1: "take (length h0) h1 = h0" "length h0 < length h1"
      and cell1: "the_xy (h1 ! length h0) = out1"
      by blast
    from Cons.IH [OF good1] show ?thesis
      by (simp add: Inr h1 cell1)
  qed
qed

lemma com_store_refines:
  assumes addrs: "a_peaks < length h" "a_waveforms < length h"
      "contact_locations_at refs < length h" "neighbours_mask_at refs < length h"
  shows "(\<forall>out. com_compute_buffer (com_step_in h refs) traces (the_peaks (h ! a_peaks))
              (the_floats3 (h ! a_waveforms)) = Inr out \<longrightarrow>
            (\<exists>h'. com_compute_buffer_in refs a_traces a_peaks a_waveforms h = Inr (length h, h') \<and>
                the_xy (h' ! length h) = out))
       \<and> (\<forall>a h'. com_compute_buffer_in refs a_traces a_peaks a_waveforms h = Inr (a, h') \<longrightarrow>
            com_compute_buffer (com_step_in h refs) traces (the_peaks (h ! a_peaks))
              (the_floats3 (h ! a_waveforms)) = Inr (the_xy (h' ! a)))"
proof -
  define peaks where "peaks = the_peaks (h ! a_peaks)"
  define cs where "cs = unique (map channel_ind peaks)"
  define h2 where "h2 = h @ [RecordsXY (zeros_xy (length peaks)), IntValues cs]"
  have good2: "take (length h) h2 = h" "length h < length h2"
    by (simp_all add: h2_def)
  have cell2: "the_xy (h2 ! length h) = zeros_xy (length peaks)"
    by (simp add: h2_def the_xy_def)
  have store: "com_compute_buffer_in refs a_traces a_peaks a_waveforms h =
      bindE (for_each (com_turn refs a_peaks a_waveforms (length h)) cs h2) (\<lambda>h'. Inr (length h, h'))"
    by (simp add: com_compute_buffer_in_def Let_def new_def peaks_def h2_def cs_def)
  have pure: "com_compute_buffer (com_step_in h refs) traces peaks (the_floats3 (h ! a_waveforms)) =
      com_loop (com_step_in h refs) (the_floats3 (h ! a_waveforms)) peaks cs (the_xy (h2 ! length h))"
    by (simp add: com_compute_buffer_def cs_def cell2)
  note link = com_loop_store [OF addrs good2, of cs, folded peaks_def]
  have forward: "\<exists>h'. com_compute_buffer_in refs a_traces a_peaks a_waveforms h = Inr (length h, h') \<and>
                the_xy (h' ! length h) = out"
    if "com_compute_buffer (com_step_in h refs) traces peaks (the_floats3 (h ! a_waveforms)) = Inr out" for out
    using that link [THEN conjunct1] unfolding pure store by (auto simp: bindE_eq_Inr)
  have backward: "com_compute_buffer (com_step_in h refs) traces peaks (the_floats3 (h ! a_waveforms))
      = Inr (the_xy (h' ! a))"
    if "com_compute_buffer_in refs a_traces a_peaks a_waveforms h = Inr (a, h')" for a h'
  proof -
    from that have "bindE (for_each (com_turn refs a_peaks a_waveforms (length h)) cs h2)
        (\<lambda>h'. Inr (length h, h')) = Inr (a, h')"
      by (simp only: store)
    then have loop: "for_each (com_turn refs a_peaks a_waveforms (length h)) cs h2 = Inr h'"
      and a: "a = length h"
      unfolding bindE_eq_Inr by auto
    from link [THEN conjunct2] loop obtain out' where
      out': "com_loop (com_step_in h refs) (the_floats3 (h ! a_waveforms)) peaks cs (the_xy (h2 ! length h)) = Inr out'"
      by blast
    from link [THEN conjunct1] out' loop have "the_xy (h' ! length h) = out'"
      by auto
    with out' a show ?thesis by (simp add: pure)
  qed
  from forward backward show ?thesis
    unfolding peaks_def by blast
qed

end
